theory Spec2Isabelle
  imports Complex_Main "HOL-Library.Sublist"
begin

section \<open>Common conventions\<close>

text \<open>
  Python \<open>str\<close> values are sequences of Unicode code points; a character is modelled by
  its code point, a string by the list of its code points. Python \<open>float\<close> values are
  modelled by exact reals: every arithmetic step of the source is kept, its rounding
  error is not. \<open>int(x)\<close> on a float truncates towards zero.
\<close>

type_synonym uchar = nat
type_synonym ustring = "uchar list"

definition ustr :: "string \<Rightarrow> ustring" where
  "ustr s = map of_char s"

definition py_int :: "real \<Rightarrow> int" where
  "py_int x = (if 0 \<le> x then \<lfloor>x\<rfloor> else \<lceil>x\<rceil>)"

section \<open>Position of the watermark\<close>

text \<open>
  The position is a string chosen in a drop-down list. The five strings the code compares
  against are the constructors below (top-left U+5DE6 U+4E0A U+89D2, top-right, bottom-left,
  bottom-right, centre U+4E2D U+5FC3); \<open>Unknown\<close> stands for every other string.
\<close>

datatype anchor = TopLeft | TopRight | BottomLeft | BottomRight | Center | Unknown ustring

text \<open>\<open>WatermarkApp.calculate_position\<close> (picaddmark/watermark_app.py): the anchor table
  followed by a clamp of both coordinates.\<close>

definition calculate_position :: "int \<times> int \<Rightarrow> int \<times> int \<Rightarrow> anchor \<Rightarrow> int \<times> int" where
  "calculate_position image_size text_bbox position =
     (let (img_w, img_h) = image_size;
          (text_w, text_h) = text_bbox;
          margin = 10;
          pos = (case position of
                   TopLeft \<Rightarrow> (margin, margin)
                 | TopRight \<Rightarrow> (img_w - text_w - margin, margin)
                 | BottomLeft \<Rightarrow> (margin, img_h - text_h - margin)
                 | BottomRight \<Rightarrow> (img_w - text_w - margin, img_h - text_h - margin)
                 | Center \<Rightarrow> ((img_w - text_w) div 2, (img_h - text_h) div 2)
                 | Unknown _ \<Rightarrow> (margin, margin));
          final_x = max 0 (min (fst pos) (img_w - text_w));
          final_y = max 0 (min (snd pos) (img_h - text_h))
      in (final_x, final_y))"

text \<open>\<open>WatermarkTool.calculate_position\<close> (modules/watermark_tool.py): the same table,
  each branch returning at once; there is no clamp.\<close>

definition tool_calculate_position :: "int \<times> int \<Rightarrow> int \<times> int \<Rightarrow> anchor \<Rightarrow> int \<times> int" where
  "tool_calculate_position image_size text_size position =
     (let (img_w, img_h) = image_size;
          (text_w, text_h) = text_size;
          margin = 10
      in case position of
           TopLeft \<Rightarrow> (margin, margin)
         | TopRight \<Rightarrow> (img_w - text_w - margin, margin)
         | BottomLeft \<Rightarrow> (margin, img_h - text_h - margin)
         | BottomRight \<Rightarrow> (img_w - text_w - margin, img_h - text_h - margin)
         | Center \<Rightarrow> ((img_w - text_w) div 2, (img_h - text_h) div 2)
         | Unknown _ \<Rightarrow> (margin, margin))"

section \<open>Contrast colour\<close>

text \<open>
  A region is the list of its pixels, each an (R, G, B) triple of channel values;
  \<open>ImageStat.Stat(region).mean\<close> is the per-channel arithmetic mean. A region without
  pixels has zero width or height.
\<close>

type_synonym rgb = "nat \<times> nat \<times> nat"

definition channel_mean :: "(rgb \<Rightarrow> nat) \<Rightarrow> rgb list \<Rightarrow> real" where
  "channel_mean ch region = real (sum_list (map ch region)) / real (length region)"

definition red :: "rgb \<Rightarrow> nat" where "red p = fst p"
definition green :: "rgb \<Rightarrow> nat" where "green p = fst (snd p)"
definition blue :: "rgb \<Rightarrow> nat" where "blue p = snd (snd p)"

definition luminance :: "rgb list \<Rightarrow> real" where
  "luminance region =
     299 / 1000 * channel_mean red region
     + 587 / 1000 * channel_mean green region
     + 114 / 1000 * channel_mean blue region"

text \<open>\<open>WatermarkApp._calculate_contrast_color\<close>: black for an empty region, otherwise
  white below luminance 128 and black from 128 on.\<close>

definition calculate_contrast_color :: "rgb list \<Rightarrow> rgb" where
  "calculate_contrast_color image_region =
     (if image_region = [] then (0, 0, 0)
      else if luminance image_region < 128 then (255, 255, 255)
      else (0, 0, 0))"

text \<open>\<open>WatermarkTool.calculate_contrast_color_for_region\<close>: black only strictly above
  128; the mean of an empty region raises, and the handler returns the configured
  watermark colour.\<close>

definition calculate_contrast_color_for_region :: "rgb \<Rightarrow> rgb list \<Rightarrow> rgb" where
  "calculate_contrast_color_for_region watermark_color region =
     (if region = [] then watermark_color
      else if luminance region > 128 then (0, 0, 0)
      else (255, 255, 255))"

section \<open>Opacity\<close>

text \<open>\<open>int(opacity_percent * 255 / 100)\<close>, the expression of all three call sites
  (preview and batch start of WatermarkApp, WatermarkTool.add_watermark_to_image).\<close>

definition opacity_value :: "int \<Rightarrow> int" where
  "opacity_value opacity_percent = py_int (real_of_int (opacity_percent * 255) / 100)"

text \<open>The mapping in the words of the specification: rounding to the nearest integer,
  then clamping to the 8-bit range.\<close>

definition spec_alpha :: "int \<Rightarrow> int" where
  "spec_alpha opacity_percent =
     max 0 (min 255 (round (real_of_int opacity_percent * 255 / 100)))"

section \<open>Text metrics\<close>

text \<open>
  A character is drawn with the Chinese font when \<open>is_chinese\<close> holds (code points U+4E00
  to U+9FFF) and with the English font otherwise. The fonts at one size are given by their
  metric function: the (width, height) that \<open>get_char_metrics(char, font)\<close> returns,
  the 10 x 10 default of its exception handler included.
\<close>

datatype font_id = FontChinese | FontEnglish

type_synonym metrics = "font_id \<Rightarrow> uchar \<Rightarrow> real \<times> real"

definition is_chinese :: "uchar \<Rightarrow> bool" where
  "is_chinese c = (19968 \<le> c \<and> c \<le> 40959)"

definition font_of :: "uchar \<Rightarrow> font_id" where
  "font_of c = (if is_chinese c then FontChinese else FontEnglish)"

definition char_metrics :: "metrics \<Rightarrow> uchar \<Rightarrow> real \<times> real" where
  "char_metrics m c = m (font_of c) c"

text \<open>\<open>WatermarkApp.calculate_text_size\<close>: the single-line estimate, the sum of the
  character widths and the largest character height.\<close>

definition calculate_text_size :: "metrics \<Rightarrow> ustring \<Rightarrow> real \<times> real" where
  "calculate_text_size m text =
     (if text = [] then (0, 0)
      else (sum_list (map (\<lambda>c. fst (char_metrics m c)) text),
            fold (\<lambda>c h. max h (snd (char_metrics m c))) text 0))"

section \<open>Adaptive font size\<close>

text \<open>
  The argument \<open>width_at\<close> gives the single-line width of the text at a font size, as the
  loop body obtains it (loading both fonts at that size, then \<open>calculate_text_size\<close> or
  \<open>textbbox\<close>); \<open>None\<close> stands for an exception raised while measuring. The loop of at
  most ten iterations is a recursion on the number of iterations left.
\<close>

fun search_size :: "(int \<Rightarrow> real option) \<Rightarrow> real \<Rightarrow> nat \<Rightarrow> int \<Rightarrow> int \<Rightarrow> int \<Rightarrow> int" where
  "search_size width_at target_width 0 low high best_size = best_size"
| "search_size width_at target_width (Suc n) low high best_size =
     (if low > high then best_size
      else let mid = (low + high) div 2
           in if mid \<le> 0 then best_size
              else (case width_at mid of
                      None \<Rightarrow> search_size width_at target_width n low (mid - 1) best_size
                    | Some current_width \<Rightarrow>
                        if current_width \<le> target_width
                        then search_size width_at target_width n (mid + 1) high mid
                        else search_size width_at target_width n low (mid - 1) best_size))"

text \<open>\<open>WatermarkApp.calculate_adaptive_font_size\<close> (picaddmark/watermark_app.py).\<close>

definition calculate_adaptive_font_size ::
  "(int \<Rightarrow> real option) \<Rightarrow> ustring \<Rightarrow> int \<Rightarrow> int \<times> int \<Rightarrow> int" where
  "calculate_adaptive_font_size width_at text base_font_size image_size =
     (if text = [] then base_font_size
      else let (img_w, img_h) = image_size;
               target_width = real_of_int img_w * (80 / 100);
               min_font_size = max 10 (py_int (real_of_int (min img_w img_h) * (15 / 1000)));
               max_font_size0 = py_int (real_of_int (min img_w img_h) * (30 / 100));
               max_font_size = max (min_font_size + 1) max_font_size0;
               best_size = search_size width_at target_width 10
                             min_font_size max_font_size min_font_size
           in max min_font_size (min best_size max_font_size))"

text \<open>\<open>WatermarkTool.calculate_adaptive_font_size\<close> (modules/watermark_tool.py): the lower
  bound uses 2 percent, the upper bound is not raised above the lower one, there is no test
  for an empty text, and an exception of the measurement is not caught.\<close>

fun tool_search_size ::
  "(int \<Rightarrow> real option) \<Rightarrow> real \<Rightarrow> nat \<Rightarrow> int \<Rightarrow> int \<Rightarrow> int \<Rightarrow> int option" where
  "tool_search_size width_at target_width 0 low high best_size = Some best_size"
| "tool_search_size width_at target_width (Suc n) low high best_size =
     (if low > high then Some best_size
      else let mid = (low + high) div 2
           in (case width_at mid of
                 None \<Rightarrow> None
               | Some text_width \<Rightarrow>
                   if text_width \<le> target_width
                   then tool_search_size width_at target_width n (mid + 1) high mid
                   else tool_search_size width_at target_width n low (mid - 1) best_size))"

definition tool_calculate_adaptive_font_size ::
  "(int \<Rightarrow> real option) \<Rightarrow> int \<times> int \<Rightarrow> int option" where
  "tool_calculate_adaptive_font_size width_at image_size =
     (let (img_w, img_h) = image_size;
          target_width = real_of_int img_w * (8 / 10);
          min_size = max 10 (py_int (real_of_int (min img_w img_h) * (2 / 100)));
          max_size = py_int (real_of_int (min img_w img_h) * (3 / 10))
      in (case tool_search_size width_at target_width 10 min_size max_size min_size of
            None \<Rightarrow> None
          | Some best_size \<Rightarrow> Some (max min_size (min best_size max_size))))"

section \<open>Strings\<close>

text \<open>
  \<open>old in s\<close> and \<open>s.replace(old, new)\<close> for a non-empty \<open>old\<close>: the occurrences are
  found from left to right and do not overlap. (For an empty \<open>old\<close> Python inserts
  \<open>new\<close> around every character; the code never does that, and the model returns
  \<open>s\<close>.)
\<close>

fun py_in :: "'a list \<Rightarrow> 'a list \<Rightarrow> bool" where
  "py_in old [] = (old = [])"
| "py_in old (c # cs) = (prefix old (c # cs) \<or> py_in old cs)"

function py_replace :: "'a list \<Rightarrow> 'a list \<Rightarrow> 'a list \<Rightarrow> 'a list" where
  "py_replace old new [] = []"
| "py_replace old new (c # cs) =
     (if old \<noteq> [] \<and> prefix old (c # cs)
      then new @ py_replace old new (drop (length old) (c # cs))
      else c # py_replace old new cs)"
  by pat_completeness auto
termination
  by (relation "measure (\<lambda>(old, new, s). length s)") auto

text \<open>The characters for which \<open>str.isspace\<close> holds; \<open>str.strip()\<close> removes them at
  both ends. \<open>s.split('\x00')[0]\<close> is the part of \<open>s\<close> before its first NUL.\<close>

definition is_space :: "uchar \<Rightarrow> bool" where
  "is_space c = ((9 \<le> c \<and> c \<le> 13) \<or> (28 \<le> c \<and> c \<le> 32) \<or> c = 133 \<or> c = 160
     \<or> c = 5760 \<or> (8192 \<le> c \<and> c \<le> 8202) \<or> c = 8232 \<or> c = 8233 \<or> c = 8239
     \<or> c = 8287 \<or> c = 12288)"

definition strip :: "ustring \<Rightarrow> ustring" where
  "strip s = rev (dropWhile is_space (rev (dropWhile is_space s)))"

definition before_nul :: "ustring \<Rightarrow> ustring" where
  "before_nul s = takeWhile (\<lambda>c. c \<noteq> 0) s"

section \<open>EXIF date\<close>

text \<open>
  The EXIF data of an image: \<open>None\<close> when \<open>image.getexif()\<close> raises, otherwise the list
  of its (tag, value) entries; a value is a string or something else. The code tests the
  value of a tag for being non-empty and a string.
\<close>

datatype exif_value = EStr ustring | EOther

type_synonym exif = "(nat \<times> exif_value) list"

definition usable :: "exif_value option \<Rightarrow> ustring option" where
  "usable v = (case v of Some (EStr s) \<Rightarrow> if s \<noteq> [] then Some s else None | _ \<Rightarrow> None)"

text \<open>
  The two formats tried by \<open>datetime.strptime\<close>, \<open>%Y:%m:%d %H:%M:%S\<close> and
  \<open>%Y-%m-%d %H:%M:%S\<close>, and the value it returns. The functions below take the library's
  \<open>strptime\<close> as their first argument (\<open>None\<close> for ValueError), so that what is proved of
  them holds whatever the library accepts.
\<close>

datatype dt_format = ColonFormat | DashFormat

record datetime =
  year :: nat
  month :: nat
  day :: nat
  hour :: nat
  minute :: nat
  second :: nat

definition pad2 :: "nat \<Rightarrow> ustring" where
  "pad2 n = [48 + n div 10 mod 10, 48 + n mod 10]"

definition pad4 :: "nat \<Rightarrow> ustring" where
  "pad4 n = [48 + n div 1000 mod 10, 48 + n div 100 mod 10, 48 + n div 10 mod 10, 48 + n mod 10]"

text \<open>\<open>dt_obj.strftime("%Y-%m-%d %H:%M:%S")\<close>. (For a year below 1000 the C library
  decides whether \<open>%Y\<close> is padded; the model pads.)\<close>

definition strftime :: "datetime \<Rightarrow> ustring" where
  "strftime dt = pad4 (year dt) @ [45] @ pad2 (month dt) @ [45] @ pad2 (day dt) @ [32]
                 @ pad2 (hour dt) @ [58] @ pad2 (minute dt) @ [58] @ pad2 (second dt)"

text \<open>The loop \<open>for fmt in (...): try: return strptime(...).strftime(...) except ValueError:
  continue\<close>.\<close>

fun try_formats :: "(dt_format \<Rightarrow> ustring \<Rightarrow> datetime option) \<Rightarrow> dt_format list \<Rightarrow> ustring
    \<Rightarrow> ustring option" where
  "try_formats strp [] s = None"
| "try_formats strp (fmt # fmts) s =
     (case strp fmt s of Some dt_obj \<Rightarrow> Some (strftime dt_obj) | None \<Rightarrow> try_formats strp fmts s)"

text \<open>\<open>WatermarkApp._get_exif_datetime\<close> (picaddmark/watermark_app.py).\<close>

definition app_get_exif_datetime ::
  "(dt_format \<Rightarrow> ustring \<Rightarrow> datetime option) \<Rightarrow> exif option \<Rightarrow> ustring option" where
  "app_get_exif_datetime strp img =
     (case img of
        None \<Rightarrow> None
      | Some exif_data \<Rightarrow>
          if exif_data = [] then None
          else (case usable (map_of exif_data 36867) of
                  Some datetime_original \<Rightarrow>
                    (let cleaned = strip (before_nul datetime_original)
                     in case try_formats strp [ColonFormat, DashFormat] cleaned of
                          Some formatted \<Rightarrow> Some formatted
                        | None \<Rightarrow> Some cleaned)
                | None \<Rightarrow>
                    (case usable (map_of exif_data 306) of
                       Some datetime_modified \<Rightarrow>
                         (let cleaned = strip (before_nul datetime_modified)
                          in case try_formats strp [ColonFormat, DashFormat] cleaned of
                               Some formatted \<Rightarrow> Some formatted
                             | None \<Rightarrow> Some cleaned)
                     | None \<Rightarrow> None)))"

text \<open>\<open>get_exif_datetime\<close> (utils.py), used by WatermarkTool: one format only.\<close>

definition get_exif_datetime ::
  "(dt_format \<Rightarrow> ustring \<Rightarrow> datetime option) \<Rightarrow> exif option \<Rightarrow> ustring option" where
  "get_exif_datetime strp img =
     (case img of
        None \<Rightarrow> None
      | Some exif_data \<Rightarrow>
          if exif_data = [] then None
          else (case usable (map_of exif_data 36867) of
                  Some datetime_original \<Rightarrow>
                    (let cleaned = strip (before_nul datetime_original)
                     in case strp ColonFormat cleaned of
                          Some dt_obj \<Rightarrow> Some (strftime dt_obj)
                        | None \<Rightarrow> Some cleaned)
                | None \<Rightarrow>
                    (case usable (map_of exif_data 306) of
                       Some datetime_modified \<Rightarrow>
                         (let cleaned = strip (before_nul datetime_modified)
                          in case strp ColonFormat cleaned of
                               Some dt_obj \<Rightarrow> Some (strftime dt_obj)
                             | None \<Rightarrow> Some cleaned)
                     | None \<Rightarrow> None)))"

definition exif_date_token :: ustring where
  "exif_date_token = ustr ''{exif_date}''"

definition not_available :: ustring where
  "not_available = ustr ''N/A''"

text \<open>\<open>WatermarkApp._process_dynamic_text\<close> and \<open>WatermarkTool.process_dynamic_text\<close>. An
  empty string is false in \<open>exif_date_str if exif_date_str else "N/A"\<close>.\<close>

definition app_process_dynamic_text ::
  "(dt_format \<Rightarrow> ustring \<Rightarrow> datetime option) \<Rightarrow> ustring \<Rightarrow> exif option \<Rightarrow> ustring" where
  "app_process_dynamic_text strp text image_obj =
     (if py_in exif_date_token text
      then let exif_date_str = app_get_exif_datetime strp image_obj;
               replace_with = (case exif_date_str of
                                 Some s \<Rightarrow> if s \<noteq> [] then s else not_available
                               | None \<Rightarrow> not_available)
           in py_replace exif_date_token replace_with text
      else text)"

definition process_dynamic_text ::
  "(dt_format \<Rightarrow> ustring \<Rightarrow> datetime option) \<Rightarrow> ustring \<Rightarrow> exif option \<Rightarrow> ustring" where
  "process_dynamic_text strp text img =
     (if py_in exif_date_token text
      then let exif_date = get_exif_datetime strp img;
               replace_text = (case exif_date of
                                 Some s \<Rightarrow> if s \<noteq> [] then s else not_available
                               | None \<Rightarrow> not_available)
           in py_replace exif_date_token replace_text text
      else text)"

text \<open>
  A model of \<open>datetime.strptime\<close> for the two formats, after CPython's \<open>_strptime\<close>, for
  text made of ASCII characters: four digits of year, the separator, month and day of
  one or two digits (the day also as a space and a digit), white space, then hour, minute
  and second of one or two digits separated by colons; the fields must be in range and
  the date must exist. It serves to evaluate the functions above on concrete EXIF
  strings.
\<close>

definition is_digit :: "uchar \<Rightarrow> bool" where
  "is_digit c = (48 \<le> c \<and> c \<le> 57)"

definition digits_value :: "ustring \<Rightarrow> nat" where
  "digits_value t = foldl (\<lambda>a c. 10 * a + (c - 48)) 0 t"

definition field :: "nat \<Rightarrow> nat \<Rightarrow> ustring \<Rightarrow> nat option" where
  "field lo hi t =
     (if t \<noteq> [] \<and> length t \<le> 2 \<and> list_all is_digit t
         \<and> lo \<le> digits_value t \<and> digits_value t \<le> hi
      then Some (digits_value t) else None)"

definition expect :: "uchar \<Rightarrow> ustring \<Rightarrow> ustring option" where
  "expect c s = (case s of [] \<Rightarrow> None | x # xs \<Rightarrow> if x = c then Some xs else None)"

definition day_token :: "ustring \<Rightarrow> ustring \<times> ustring" where
  "day_token s =
     (case s of
        x # y # rest \<Rightarrow> if x = 32 \<and> 49 \<le> y \<and> y \<le> 57 then ([y], rest)
                        else (takeWhile is_digit s, dropWhile is_digit s)
      | _ \<Rightarrow> (takeWhile is_digit s, dropWhile is_digit s))"

definition leap_year :: "nat \<Rightarrow> bool" where
  "leap_year y = (y mod 4 = 0 \<and> (y mod 100 \<noteq> 0 \<or> y mod 400 = 0))"

definition days_in_month :: "nat \<Rightarrow> nat \<Rightarrow> nat" where
  "days_in_month y m =
     (if m = 2 then (if leap_year y then 29 else 28)
      else if m = 4 \<or> m = 6 \<or> m = 9 \<or> m = 11 then 30 else 31)"

definition strptime :: "dt_format \<Rightarrow> ustring \<Rightarrow> datetime option" where
  "strptime fmt s =
     (let sep = (case fmt of ColonFormat \<Rightarrow> 58 | DashFormat \<Rightarrow> 45);
          y = take 4 s
      in if length y = 4 \<and> list_all is_digit y \<and> 1 \<le> digits_value y then
           Option.bind (expect sep (drop 4 s)) (\<lambda>r2.
           Option.bind (field 1 12 (takeWhile is_digit r2)) (\<lambda>mo.
           Option.bind (expect sep (dropWhile is_digit r2)) (\<lambda>r4.
           Option.bind (field 1 (days_in_month (digits_value y) mo) (fst (day_token r4))) (\<lambda>d.
           let r5 = snd (day_token r4); r6 = dropWhile is_space r5
           in if r5 = [] \<or> \<not> is_space (hd r5) then None else
           Option.bind (field 0 23 (takeWhile is_digit r6)) (\<lambda>h.
           Option.bind (expect 58 (dropWhile is_digit r6)) (\<lambda>r8.
           Option.bind (field 0 59 (takeWhile is_digit r8)) (\<lambda>mi.
           Option.bind (expect 58 (dropWhile is_digit r8)) (\<lambda>r10.
           Option.bind (field 0 59 r10) (\<lambda>sec.
           Some \<lparr>year = digits_value y, month = mo, day = d,
                 hour = h, minute = mi, second = sec\<rparr>)))))))))
         else None)"

text \<open>
  For stating what the lookup does: the tag value it works on (DateTimeOriginal, tag
  36867, when that is a non-empty string, otherwise DateTime, tag 306, when that is one),
  and the text that is put in place of the token, given the formats tried.
\<close>

definition timestamp_tag :: "exif \<Rightarrow> ustring option" where
  "timestamp_tag e =
     (case usable (map_of e 36867) of Some raw \<Rightarrow> Some raw | None \<Rightarrow> usable (map_of e 306))"

definition exif_date_text ::
  "(dt_format \<Rightarrow> ustring \<Rightarrow> datetime option) \<Rightarrow> dt_format list \<Rightarrow> exif option \<Rightarrow> ustring" where
  "exif_date_text strp fmts img =
     (case img of
        None \<Rightarrow> not_available
      | Some e \<Rightarrow>
          (case timestamp_tag e of
             None \<Rightarrow> not_available
           | Some raw \<Rightarrow>
               (case try_formats strp fmts (strip (before_nul raw)) of
                  Some formatted \<Rightarrow> formatted
                | None \<Rightarrow> if strip (before_nul raw) = [] then not_available
                           else strip (before_nul raw))))"

section \<open>Batch processing\<close>

text \<open>
  The worker thread is modelled as a function of what it reads from outside: the result
  of the set-up (creating the output folder, listing the images; \<open>Inl\<close> carries the text
  of the exception), the result of processing one image (\<open>None\<close> on success, \<open>Some\<close>
  with the text of the exception raised), and the value of the flag \<open>stop_requested\<close> at
  each place the thread reads it: \<open>stop_at i\<close> at the check before the item with index
  \<open>i\<close>, and a further value for the read after the loop or in the completion handler.
  The flag is set by the other thread; the worker only reads it. The result is the
  sequence of messages put on the queue.
\<close>

type_synonym filename = ustring
type_synonym message = ustring

subsection \<open>WatermarkApp (picaddmark/watermark_app.py)\<close>

datatype app_event =
    Progress nat nat filename
  | Error filename message
  | Finished nat nat "message option"

text \<open>The loop \<open>for i, filename in enumerate(image_files)\<close> of
  \<open>_threaded_add_watermarks\<close>; the state is (processed_count, skipped_count, queue).\<close>

fun app_loop :: "(filename \<Rightarrow> message option) \<Rightarrow> (nat \<Rightarrow> bool) \<Rightarrow> nat \<Rightarrow> nat \<Rightarrow> filename list
    \<Rightarrow> nat \<times> nat \<times> app_event list \<Rightarrow> nat \<times> nat \<times> app_event list" where
  "app_loop process_single_image stop_at total_images i [] st = st"
| "app_loop process_single_image stop_at total_images i (filename # rest)
     (processed_count, skipped_count, queue) =
     (if stop_at i then (processed_count, skipped_count, queue)
      else let queue1 = queue @ [Progress (i + 1) total_images filename]
           in (case process_single_image filename of
                 None \<Rightarrow> app_loop process_single_image stop_at total_images (i + 1) rest
                           (processed_count + 1, skipped_count, queue1)
               | Some img_err \<Rightarrow> app_loop process_single_image stop_at total_images (i + 1) rest
                           (processed_count, skipped_count + 1,
                            queue1 @ [Error filename img_err])))"

definition threaded_add_watermarks :: "message + filename list \<Rightarrow> (filename \<Rightarrow> message option)
    \<Rightarrow> (nat \<Rightarrow> bool) \<Rightarrow> app_event list" where
  "threaded_add_watermarks setup process_single_image stop_at =
     (case setup of
        Inl e \<Rightarrow> [Finished 0 0 (Some e)]
      | Inr image_files \<Rightarrow>
          if length image_files = 0 then [Finished 0 0 None]
          else (case app_loop process_single_image stop_at (length image_files) 0 image_files
                       (0, 0, []) of
                  (processed_count, skipped_count, queue) \<Rightarrow>
                    queue @ [Finished processed_count skipped_count None]))"

text \<open>\<open>_handle_completion\<close>, run by the main thread on the \<open>finished\<close> message: the text
  of the progress label and the dialog shown. \<open>was_stopped\<close> is the flag as read there; an
  empty error text is false.\<close>

datatype label = LabelStopped | LabelError | LabelDone
datatype dialog = DialogFailed | DialogStopped | DialogCompleted

definition truthy :: "message option \<Rightarrow> bool" where
  "truthy error_str = (case error_str of None \<Rightarrow> False | Some m \<Rightarrow> m \<noteq> [])"

definition handle_completion :: "bool \<Rightarrow> message option \<Rightarrow> label \<times> dialog" where
  "handle_completion was_stopped error_str =
     (if was_stopped then LabelStopped else if truthy error_str then LabelError else LabelDone,
      if truthy error_str then DialogFailed
      else if was_stopped then DialogStopped else DialogCompleted)"

subsection \<open>WatermarkTool (modules/watermark_tool.py)\<close>

datatype tool_message =
    StatusStart
  | ProgressPercent real
  | StatusItem nat nat filename
  | StatusCancelled
  | StatusDone nat nat
  | InfoSaved
  | ErrorBatch message
  | EnableControls

record tool_state =
  processed_count :: nat
  error_count :: nat
  queue :: "tool_message list"
  log :: "(filename \<times> message) list"

text \<open>The loop of \<open>process_images_thread\<close>; a failure is counted and logged, nothing is
  put on the queue for it.\<close>

fun tool_loop :: "(filename \<Rightarrow> message option) \<Rightarrow> (nat \<Rightarrow> bool) \<Rightarrow> nat \<Rightarrow> nat \<Rightarrow> filename list
    \<Rightarrow> tool_state \<Rightarrow> tool_state" where
  "tool_loop process stop_at total_images i [] st = st"
| "tool_loop process stop_at total_images i (image_path # rest) st =
     (if stop_at i then st
      else let st1 = st\<lparr>queue := queue st
                      @ [ProgressPercent (real (i + 1) / real total_images * 100),
                         StatusItem (i + 1) total_images image_path]\<rparr>
           in (case process image_path of
                 None \<Rightarrow> tool_loop process stop_at total_images (i + 1) rest
                           (st1\<lparr>processed_count := processed_count st1 + 1\<rparr>)
               | Some e \<Rightarrow> tool_loop process stop_at total_images (i + 1) rest
                           (st1\<lparr>error_count := error_count st1 + 1,
                                log := log st1 @ [(image_path, e)]\<rparr>)))"

definition process_images_thread :: "message + unit \<Rightarrow> filename list
    \<Rightarrow> (filename \<Rightarrow> message option) \<Rightarrow> (nat \<Rightarrow> bool) \<Rightarrow> bool \<Rightarrow> tool_state" where
  "process_images_thread create_output_folder image_files process stop_at stop_after =
     (case create_output_folder of
        Inl e \<Rightarrow> \<lparr>processed_count = 0, error_count = 0,
                   queue = [ErrorBatch e, EnableControls], log = []\<rparr>
      | Inr _ \<Rightarrow>
          (let st = tool_loop process stop_at (length image_files) 0 image_files
                      \<lparr>processed_count = 0, error_count = 0, queue = [StatusStart], log = []\<rparr>;
               done = (if stop_after then [StatusCancelled]
                       else StatusDone (processed_count st) (error_count st)
                            # (if processed_count st > 0 then [InfoSaved] else []))
           in st\<lparr>queue := queue st @ done @ [EnableControls]\<rparr>))"

text \<open>
  For stating the results: the items the loop reaches (those before the first check that
  sees the flag set), and the messages the two loops emit for a list of items.
\<close>

fun reached :: "(nat \<Rightarrow> bool) \<Rightarrow> nat \<Rightarrow> 'a list \<Rightarrow> 'a list" where
  "reached stop_at i [] = []"
| "reached stop_at i (f # fs) = (if stop_at i then [] else f # reached stop_at (i + 1) fs)"

fun item_events :: "(filename \<Rightarrow> message option) \<Rightarrow> nat \<Rightarrow> nat \<Rightarrow> filename list \<Rightarrow> app_event list" where
  "item_events process n_total i [] = []"
| "item_events process n_total i (f # fs) =
     Progress (i + 1) n_total f
     # (case process f of None \<Rightarrow> [] | Some e \<Rightarrow> [Error f e])
     @ item_events process n_total (i + 1) fs"

fun tool_item_messages :: "nat \<Rightarrow> nat \<Rightarrow> filename list \<Rightarrow> tool_message list" where
  "tool_item_messages n_total i [] = []"
| "tool_item_messages n_total i (f # fs) =
     ProgressPercent (real (i + 1) / real n_total * 100) # StatusItem (i + 1) n_total f
     # tool_item_messages n_total (i + 1) fs"

definition succeeded :: "(filename \<Rightarrow> message option) \<Rightarrow> filename list \<Rightarrow> filename list" where
  "succeeded process fs = filter (\<lambda>f. process f = None) fs"

definition failed :: "(filename \<Rightarrow> message option) \<Rightarrow> filename list \<Rightarrow> (filename \<times> message) list" where
  "failed process fs = concat (map (\<lambda>f. case process f of None \<Rightarrow> [] | Some e \<Rightarrow> [(f, e)]) fs)"

definition is_error :: "app_event \<Rightarrow> bool" where
  "is_error ev = (case ev of Error _ _ \<Rightarrow> True | _ \<Rightarrow> False)"

definition is_progress :: "app_event \<Rightarrow> bool" where
  "is_progress ev = (case ev of Progress _ _ _ \<Rightarrow> True | _ \<Rightarrow> False)"

fun progress_events :: "nat \<Rightarrow> nat \<Rightarrow> filename list \<Rightarrow> app_event list" where
  "progress_events n_total i [] = []"
| "progress_events n_total i (f # fs) = Progress (i + 1) n_total f # progress_events n_total (i + 1) fs"

section \<open>Line layout\<close>

text \<open>
  \<open>WatermarkApp.draw_watermark\<close> (picaddmark/watermark_app.py). An item is an entry of
  the line buffer (the dictionary with keys text, font, width, height); a run is one call
  of \<open>draw.text\<close>: an item together with the cursor position (floats) at which it is
  placed. The pixel position passed to \<open>draw.text\<close> is the truncated cursor. The runs are
  returned in the order of the calls; a call that raises is caught and logged by the
  code and is a run all the same. The width of a space is measured once with the English
  font (0 when measuring raises) and is an argument here. The variable
  \<open>current_line_max_h\<close> is written and never read, and is left out.
\<close>

record item =
  itext :: ustring
  ifont :: font_id
  iwidth :: real
  iheight :: real

record run =
  run_x :: real
  run_y :: real
  run_item :: item

definition pixel_x :: "run \<Rightarrow> int" where
  "pixel_x r = py_int (run_x r)"

definition pixel_y :: "run \<Rightarrow> int" where
  "pixel_y r = py_int (run_y r)"

text \<open>\<open>text.split(' ')\<close>: the words between single spaces, empty words included.\<close>

fun split_space :: "ustring \<Rightarrow> ustring list" where
  "split_space [] = [[]]"
| "split_space (c # cs) =
     (if c = 32 then [] # split_space cs
      else (case split_space cs of [] \<Rightarrow> [[c]] | w # ws \<Rightarrow> (c # w) # ws))"

text \<open>The metrics of the characters of a word (\<open>word_chars_metrics\<close>) and the width of the
  word; the item of the space between two words, measured with the English font.\<close>

definition char_item :: "metrics \<Rightarrow> uchar \<Rightarrow> item" where
  "char_item m c = \<lparr>itext = [c], ifont = font_of c,
                    iwidth = fst (m (font_of c) c), iheight = snd (m (font_of c) c)\<rparr>"

definition word_chars_metrics :: "metrics \<Rightarrow> ustring \<Rightarrow> item list" where
  "word_chars_metrics m word = map (char_item m) word"

definition items_width :: "item list \<Rightarrow> real" where
  "items_width its = sum_list (map iwidth its)"

definition space_item :: "metrics \<Rightarrow> real \<Rightarrow> item" where
  "space_item m space_width = \<lparr>itext = [32], ifont = FontEnglish,
                                iwidth = space_width, iheight = snd (m FontEnglish 32)\<rparr>"

text \<open>\<open>flush_line_buffer\<close>: the items of the buffer are drawn from \<open>start_x\<close> on, each
  advancing the cursor by its width; the value returned is the largest height.\<close>

fun place :: "real \<Rightarrow> real \<Rightarrow> item list \<Rightarrow> run list" where
  "place current_x current_y [] = []"
| "place current_x current_y (it # its) =
     \<lparr>run_x = current_x, run_y = current_y, run_item = it\<rparr>
     # place (current_x + iwidth it) current_y its"

definition line_height :: "item list \<Rightarrow> real" where
  "line_height buffer =
     (case buffer of [] \<Rightarrow> 0 | it # its \<Rightarrow> fold (\<lambda>i h. max h (iheight i)) its (iheight it))"

text \<open>The inner loop for a word wider than the line: character by character, going to
  the start of a new line when the cursor has left the line start and the character would
  cross the right limit. It returns the runs and the vertical cursor after the word.\<close>

fun forced_break :: "real \<Rightarrow> real \<Rightarrow> item list \<Rightarrow> real \<Rightarrow> real \<Rightarrow> real \<Rightarrow> run list \<times> real" where
  "forced_break x_start max_width [] temp_x temp_h y = ([], y + temp_h)"
| "forced_break x_start max_width (char_metric # rest) temp_x temp_h y =
     (let wrap = (temp_x > x_start \<and> temp_x + iwidth char_metric > x_start + max_width);
          y1 = (if wrap then y + (if temp_h > 0 then temp_h else iheight char_metric) else y);
          temp_x1 = (if wrap then x_start else temp_x);
          temp_h1 = (if wrap then 0 else temp_h);
          r = forced_break x_start max_width rest
                (temp_x1 + iwidth char_metric) (max temp_h1 (iheight char_metric)) y1
      in (\<lparr>run_x = temp_x1, run_y = y1, run_item = char_metric\<rparr> # fst r, snd r))"

text \<open>
  The loop \<open>while word_index < len(words)\<close>, on the words left; a word that does not fit
  on a line with content is tried again after the line has been flushed. After the loop
  the rest of the buffer is flushed.
\<close>

function draw_loop :: "metrics \<Rightarrow> real \<Rightarrow> real \<Rightarrow> real \<Rightarrow> ustring list \<Rightarrow> item list \<Rightarrow> real \<Rightarrow> real
    \<Rightarrow> run list \<Rightarrow> run list" where
  "draw_loop m space_width x_start max_width [] line_buffer current_line_width y out =
     (if line_buffer \<noteq> [] then out @ place x_start y line_buffer else out)"
| "draw_loop m space_width x_start max_width (word # rest) line_buffer current_line_width y out =
     (if (if line_buffer = [] then current_line_width else current_line_width + space_width)
           + items_width (word_chars_metrics m word) \<le> max_width
      then (if line_buffer = []
            then draw_loop m space_width x_start max_width rest
                   (line_buffer @ word_chars_metrics m word)
                   (current_line_width + items_width (word_chars_metrics m word)) y out
            else draw_loop m space_width x_start max_width rest
                   (line_buffer @ [space_item m space_width] @ word_chars_metrics m word)
                   (current_line_width + space_width + items_width (word_chars_metrics m word))
                   y out)
      else if line_buffer = []
      then draw_loop m space_width x_start max_width rest [] 0
             (snd (forced_break x_start max_width (word_chars_metrics m word) x_start 0 y))
             (out @ fst (forced_break x_start max_width (word_chars_metrics m word) x_start 0 y))
      else draw_loop m space_width x_start max_width (word # rest) [] 0
             (y + line_height line_buffer) (out @ place x_start y line_buffer))"
  by pat_completeness auto
termination
  by (relation "measure (\<lambda>(m, sw, xs, mw, ws, buf, clw, y, out).
        2 * length ws + (if buf = [] then 0 else 1))") auto

declare draw_loop.simps [simp del]

definition draw_watermark :: "metrics \<Rightarrow> real \<Rightarrow> ustring \<Rightarrow> real \<Rightarrow> real \<Rightarrow> real \<Rightarrow> run list" where
  "draw_watermark m space_width text x_start y_start max_width_constraint =
     (if text = [] then []
      else draw_loop m space_width x_start max_width_constraint (split_space text) [] 0 y_start [])"

definition run_texts :: "run list \<Rightarrow> ustring" where
  "run_texts rs = concat (map (\<lambda>r. itext (run_item r)) rs)"

definition items_text :: "item list \<Rightarrow> ustring" where
  "items_text its = concat (map itext its)"

text \<open>For stating the results: the words, each preceded by a space.\<close>

definition spaced :: "ustring list \<Rightarrow> ustring" where
  "spaced ws = concat (map (\<lambda>w. 32 # w) ws)"

text \<open>For stating the results: a run lies within the line when it starts at or after the
  line start, holds one character, and ends at or before the right limit, or is a
  character wider than the line placed at the line start.\<close>

definition within_line :: "real \<Rightarrow> real \<Rightarrow> run \<Rightarrow> bool" where
  "within_line x_start max_width r =
     (x_start \<le> run_x r \<and> length (itext (run_item r)) = 1
      \<and> (run_x r + iwidth (run_item r) \<le> x_start + max_width
          \<or> (run_x r = x_start \<and> max_width < iwidth (run_item r))))"

definition good_items :: "item list \<Rightarrow> bool" where
  "good_items its = list_all (\<lambda>it. 0 \<le> iwidth it \<and> length (itext it) = 1) its"

text \<open>The width of a sequence of words when each is preceded by a space.\<close>

definition line_width :: "metrics \<Rightarrow> real \<Rightarrow> ustring list \<Rightarrow> real" where
  "line_width m space_width ws =
     sum_list (map (\<lambda>w. space_width + items_width (word_chars_metrics m w)) ws)"

section \<open>Results: position\<close>

lemma calculate_position_in_bounds:
  assumes "text_w \<le> img_w" and "text_h \<le> img_h"
  shows "0 \<le> fst (calculate_position (img_w, img_h) (text_w, text_h) position)
       \<and> fst (calculate_position (img_w, img_h) (text_w, text_h) position) \<le> img_w - text_w
       \<and> 0 \<le> snd (calculate_position (img_w, img_h) (text_w, text_h) position)
       \<and> snd (calculate_position (img_w, img_h) (text_w, text_h) position) \<le> img_h - text_h"
  using assms by (simp add: calculate_position_def Let_def)

text \<open>
  C4. The claim asks that the resolved origin keeps the text box inside the image
  whenever the box fits. \<open>WatermarkApp.calculate_position\<close> clamps and satisfies it
  (lemma \<open>calculate_position_in_bounds\<close>); \<open>WatermarkTool.calculate_position\<close> has no
  clamp: for a 100 x 100 image, a 95 x 20 text box and the bottom-right anchor it returns
  x = -5, and for the top-left anchor with a 95 x 95 box it returns (10, 10), beyond the
  largest admissible origin (5, 5).
\<close>

theorem tool_calculate_position_out_of_bounds:
  "tool_calculate_position (100, 100) (95, 20) BottomRight = (-5, 70)
   \<and> tool_calculate_position (100, 100) (95, 95) TopLeft = (10, 10)
   \<and> calculate_position (100, 100) (95, 20) BottomRight = (0, 70)
   \<and> calculate_position (100, 100) (95, 95) TopLeft = (5, 5)"
  by (simp add: tool_calculate_position_def calculate_position_def)

section \<open>Results: contrast colour\<close>

lemma calculate_contrast_color_threshold:
  assumes "image_region \<noteq> []"
  shows "(calculate_contrast_color image_region = (255, 255, 255)) = (luminance image_region < 128)"
    and "(calculate_contrast_color image_region = (0, 0, 0)) = (128 \<le> luminance image_region)"
  using assms by (auto simp: calculate_contrast_color_def)

text \<open>
  C5. The claim fixes the tie: luminance exactly 128 gives black.
  \<open>WatermarkApp._calculate_contrast_color\<close> does so (lemma
  \<open>calculate_contrast_color_threshold\<close>). \<open>WatermarkTool.calculate_contrast_color_for_region\<close>
  tests \<open>luminance > 128\<close> and returns white at exactly 128. A region of pixels
  (1, 189, 147) has luminance 0.299 + 110.943 + 16.758 = 128; the three float products
  and their sum are exactly 128.0 in IEEE double arithmetic as well.
\<close>

theorem tool_contrast_tie_is_white:
  "luminance [(1, 189, 147)] = 128
   \<and> calculate_contrast_color_for_region (255, 255, 0) [(1, 189, 147)] = (255, 255, 255)
   \<and> calculate_contrast_color [(1, 189, 147)] = (0, 0, 0)"
  by (simp add: luminance_def channel_mean_def red_def green_def blue_def
      calculate_contrast_color_for_region_def calculate_contrast_color_def)

section \<open>Results: opacity\<close>

lemma opacity_value_div:
  assumes "0 \<le> opacity_percent"
  shows "opacity_value opacity_percent = (opacity_percent * 255) div 100"
proof -
  have "(0::real) \<le> real_of_int (opacity_percent * 255) / 100"
    using assms by simp
  then have "opacity_value opacity_percent = \<lfloor>real_of_int (opacity_percent * 255) / 100\<rfloor>"
    by (simp add: opacity_value_def py_int_def)
  also have "\<dots> = \<lfloor>real_of_int (opacity_percent * 255) / real_of_int 100\<rfloor>"
    by simp
  also have "\<dots> = (opacity_percent * 255) div 100"
    by (rule floor_divide_of_int_eq)
  finally show ?thesis .
qed

lemma spec_alpha_round:
  assumes "0 \<le> opacity_percent" and "opacity_percent \<le> 100"
  shows "spec_alpha opacity_percent = (opacity_percent * 255 + 50) div 100"
proof -
  have "real_of_int opacity_percent * 255 / 100 + 1 / 2
        = real_of_int (opacity_percent * 255 + 50) / real_of_int 100"
    by (simp add: field_simps)
  then have r: "round (real_of_int opacity_percent * 255 / 100) = (opacity_percent * 255 + 50) div 100"
    unfolding round_def by (simp only: floor_divide_of_int_eq)
  have "0 \<le> opacity_percent * 255 + 50" "opacity_percent * 255 + 50 \<le> 25550"
    using assms by simp_all
  then have "0 \<le> (opacity_percent * 255 + 50) div 100" "(opacity_percent * 255 + 50) div 100 \<le> 255"
    using zdiv_mono1 [of "opacity_percent * 255 + 50" 25550 100] by simp_all
  then show ?thesis
    unfolding spec_alpha_def r by simp
qed

text \<open>
  C6, as stated, fails: the alpha is not the rounded value. At opacity 1 the code
  computes int(2.55) = 2, where rounding gives 3.
\<close>

theorem opacity_value_not_rounded:
  "opacity_value 1 = 2 \<and> spec_alpha 1 = 3 \<and> opacity_value 1 \<noteq> spec_alpha 1"
  by (simp add: opacity_value_def py_int_def spec_alpha_def round_def)

text \<open>
  C6, amended. For every opacity percentage in [0, 100] the alpha is the value
  opacity * 255 / 100 truncated (rounded down), it lies in [0, 255] and is the rounded
  value or one less; opacity 0 gives 0, opacity 100 gives 255 and opacity 50 gives 127.
\<close>

theorem opacity_value_truncates:
  assumes "0 \<le> opacity_percent" and "opacity_percent \<le> 100"
  shows "opacity_value opacity_percent = (opacity_percent * 255) div 100
       \<and> 0 \<le> opacity_value opacity_percent \<and> opacity_value opacity_percent \<le> 255
       \<and> spec_alpha opacity_percent - 1 \<le> opacity_value opacity_percent
       \<and> opacity_value opacity_percent \<le> spec_alpha opacity_percent
       \<and> opacity_value 0 = 0 \<and> opacity_value 100 = 255 \<and> opacity_value 50 = 127"
proof -
  have d: "opacity_value opacity_percent = (opacity_percent * 255) div 100"
    using assms(1) by (rule opacity_value_div)
  have s: "spec_alpha opacity_percent = (opacity_percent * 255 + 50) div 100"
    using assms by (rule spec_alpha_round)
  have "0 \<le> opacity_percent * 255" "opacity_percent * 255 \<le> 25500"
    using assms by simp_all
  then have b: "0 \<le> (opacity_percent * 255) div 100" "(opacity_percent * 255) div 100 \<le> 255"
    using zdiv_mono1 [of "opacity_percent * 255" 25500 100] by simp_all
  have "(opacity_percent * 255 + 50) div 100 \<le> (opacity_percent * 255 + 100) div 100"
    by (rule zdiv_mono1) simp_all
  then have c1: "(opacity_percent * 255 + 50) div 100 - 1 \<le> (opacity_percent * 255) div 100"
    by simp
  have c2: "(opacity_percent * 255) div 100 \<le> (opacity_percent * 255 + 50) div 100"
    by (rule zdiv_mono1) simp_all
  note c = c1 c2
  have v: "opacity_value 0 = 0" "opacity_value 100 = 255" "opacity_value 50 = 127"
    by (simp_all add: opacity_value_div)
  show ?thesis using d s b c v by simp
qed

theorem opacity_value_truncates_witness:
  "opacity_value 37 = 94 \<and> 0 \<le> opacity_value 37 \<and> opacity_value 37 \<le> 255
   \<and> spec_alpha 37 - 1 \<le> opacity_value 37 \<and> opacity_value 37 \<le> spec_alpha 37"
  using opacity_value_truncates [of 37] by simp

section \<open>Results: adaptive font size\<close>

lemma search_size_numeral:
  "search_size width_at target_width (numeral k) low high best_size =
     (if low > high then best_size
      else let mid = (low + high) div 2
           in if mid \<le> 0 then best_size
              else (case width_at mid of
                      None \<Rightarrow> search_size width_at target_width (pred_numeral k) low (mid - 1) best_size
                    | Some current_width \<Rightarrow>
                        if current_width \<le> target_width
                        then search_size width_at target_width (pred_numeral k) (mid + 1) high mid
                        else search_size width_at target_width (pred_numeral k) low (mid - 1) best_size))"
  by (simp only: numeral_eq_Suc search_size.simps)

lemma tool_search_size_numeral:
  "tool_search_size width_at target_width (numeral k) low high best_size =
     (if low > high then Some best_size
      else let mid = (low + high) div 2
           in (case width_at mid of
                 None \<Rightarrow> None
               | Some text_width \<Rightarrow>
                   if text_width \<le> target_width
                   then tool_search_size width_at target_width (pred_numeral k) (mid + 1) high mid
                   else tool_search_size width_at target_width (pred_numeral k) low (mid - 1) best_size))"
  by (simp only: numeral_eq_Suc tool_search_size.simps)

lemma tool_search_size_total:
  assumes "\<forall>s. width_at s \<noteq> None"
  shows "\<exists>b. tool_search_size width_at target_width n low high best_size = Some b"
proof (induction n arbitrary: low high best_size)
  case 0
  show ?case by simp
next
  case (Suc n)
  from assms obtain w where w: "width_at ((low + high) div 2) = Some w"
    by (meson option.exhaust)
  show ?case
    using Suc.IH [of "(low + high) div 2 + 1" high "(low + high) div 2"]
      Suc.IH [of low "(low + high) div 2 - 1" best_size]
    by (simp add: Let_def w)
qed


text \<open>
  C3, as stated, fails: for a 20 x 20 image the interval of the claim is [10, 6], and the
  size returned for a one-character text whose width at size s is s pixels is 11
  (picaddmark) and 10 (modules).
\<close>

theorem adaptive_font_size_exceeds_claimed_bound:
  "calculate_adaptive_font_size (\<lambda>s. Some (real_of_int s)) [65] 40 (20, 20) = 11
   \<and> tool_calculate_adaptive_font_size (\<lambda>s. Some (real_of_int s)) (20, 20) = Some 10
   \<and> \<not> (real_of_int (calculate_adaptive_font_size (\<lambda>s. Some (real_of_int s)) [65] 40 (20, 20))
          \<le> 30 / 100 * real_of_int (min 20 20))"
proof -
  have p: "py_int (real_of_int (min 20 20) * (15 / 1000)) = 0"
    "py_int (real_of_int (min 20 20) * (30 / 100)) = 6"
    "py_int (real_of_int (min 20 20) * (2 / 100)) = 0"
    "py_int (real_of_int (min 20 20) * (3 / 10)) = 6"
    by (simp_all add: py_int_def)
  have s: "search_size (\<lambda>s. Some (real_of_int s)) (real_of_int 20 * (80 / 100)) 10 10 11 10 = 11"
    by (simp add: search_size_numeral Let_def)
  have t: "tool_search_size (\<lambda>s. Some (real_of_int s)) (real_of_int 20 * (8 / 10)) 10 10 6 10 = Some 10"
    by (simp add: tool_search_size_numeral Let_def)
  have a: "calculate_adaptive_font_size (\<lambda>s. Some (real_of_int s)) [65] 40 (20, 20) = 11"
    unfolding calculate_adaptive_font_size_def Let_def prod.case p using s by simp
  have b: "tool_calculate_adaptive_font_size (\<lambda>s. Some (real_of_int s)) (20, 20) = Some 10"
    unfolding tool_calculate_adaptive_font_size_def Let_def prod.case p using t by simp
  show ?thesis unfolding a b by simp
qed

text \<open>
  C3, amended. For every non-empty text and every image size the size returned lies in
  [minSize, maxSize], where in picaddmark minSize = max(10, int(0.015 m)) and
  maxSize = max(minSize + 1, int(0.30 m)), and in modules (when measuring the text raises
  nothing) minSize = max(10, int(0.02 m)) and maxSize = max(minSize, int(0.30 m)), with
  m = min(w, h) and int truncating.
\<close>

theorem adaptive_font_size_in_range:
  assumes "text \<noteq> []" and "\<forall>s. tool_width_at s \<noteq> None"
  shows "max 10 (py_int (real_of_int (min w h) * (15 / 1000)))
           \<le> calculate_adaptive_font_size width_at text base_font_size (w, h)
       \<and> calculate_adaptive_font_size width_at text base_font_size (w, h)
           \<le> max (max 10 (py_int (real_of_int (min w h) * (15 / 1000))) + 1)
                 (py_int (real_of_int (min w h) * (30 / 100)))
       \<and> (\<exists>s. tool_calculate_adaptive_font_size tool_width_at (w, h) = Some s
              \<and> max 10 (py_int (real_of_int (min w h) * (2 / 100))) \<le> s
              \<and> s \<le> max (max 10 (py_int (real_of_int (min w h) * (2 / 100))))
                        (py_int (real_of_int (min w h) * (3 / 10))))"
proof -
  define lo where "lo = max 10 (py_int (real_of_int (min w h) * (15 / 1000)))"
  define hi where "hi = py_int (real_of_int (min w h) * (30 / 100))"
  define tlo where "tlo = max 10 (py_int (real_of_int (min w h) * (2 / 100)))"
  define thi where "thi = py_int (real_of_int (min w h) * (3 / 10))"
  define best where "best = search_size width_at (real_of_int w * (80 / 100)) 10 lo (max (lo + 1) hi) lo"
  have "calculate_adaptive_font_size width_at text base_font_size (w, h)
        = max lo (min best (max (lo + 1) hi))"
    using assms(1)
    unfolding calculate_adaptive_font_size_def Let_def prod.case lo_def hi_def best_def
    by (simp only: if_False)
  then have app: "lo \<le> calculate_adaptive_font_size width_at text base_font_size (w, h)
      \<and> calculate_adaptive_font_size width_at text base_font_size (w, h) \<le> max (lo + 1) hi"
    by linarith
  obtain b where b: "tool_search_size tool_width_at (real_of_int w * (8 / 10)) 10 tlo thi tlo = Some b"
    using tool_search_size_total [of tool_width_at] assms(2) by blast
  have "tool_calculate_adaptive_font_size tool_width_at (w, h) = Some (max tlo (min b thi))"
    unfolding tool_calculate_adaptive_font_size_def Let_def prod.case
    by (simp only: b option.case flip: tlo_def thi_def)
  then have tool: "\<exists>s. tool_calculate_adaptive_font_size tool_width_at (w, h) = Some s
      \<and> tlo \<le> s \<and> s \<le> max tlo thi"
    by simp
  show ?thesis
    using app tool unfolding lo_def hi_def tlo_def thi_def by blast
qed

theorem adaptive_font_size_in_range_witness:
  "max 10 (py_int (real_of_int (min 1200 800) * (15 / 1000)))
           \<le> calculate_adaptive_font_size (\<lambda>s. Some (real_of_int s * 3)) [72, 105] 40 (1200, 800)
   \<and> calculate_adaptive_font_size (\<lambda>s. Some (real_of_int s * 3)) [72, 105] 40 (1200, 800)
           \<le> max (max 10 (py_int (real_of_int (min 1200 800) * (15 / 1000))) + 1)
                 (py_int (real_of_int (min 1200 800) * (30 / 100)))
   \<and> (\<exists>s. tool_calculate_adaptive_font_size (\<lambda>s. Some (real_of_int s * 3)) (1200, 800) = Some s
              \<and> max 10 (py_int (real_of_int (min 1200 800) * (2 / 100))) \<le> s
              \<and> s \<le> max (max 10 (py_int (real_of_int (min 1200 800) * (2 / 100))))
                        (py_int (real_of_int (min 1200 800) * (3 / 10))))"
  by (rule adaptive_font_size_in_range) simp_all

section \<open>Results: dynamic text\<close>

lemma strftime_length: "length (strftime dt) = 19"
  by (simp add: strftime_def pad2_def pad4_def)

lemma strftime_nonempty: "strftime dt \<noteq> []"
  using strftime_length [of dt] by auto

lemma strftime_not_na: "strftime dt \<noteq> not_available"
  using strftime_length [of dt] by (auto simp: not_available_def ustr_def)

lemma try_formats_nonempty: "try_formats strp fmts s = Some r \<Longrightarrow> r \<noteq> []"
  by (induction fmts) (auto simp: strftime_nonempty split: option.splits)

lemma timestamp_tag_nonempty: "timestamp_tag e = Some raw \<Longrightarrow> e \<noteq> []"
  by (auto simp: timestamp_tag_def usable_def)

lemma py_replace_absent: "\<not> py_in old s \<Longrightarrow> py_replace old new s = s"
  by (induction s) auto

lemma app_get_exif_datetime_tag:
  "app_get_exif_datetime strp (Some e) =
     (case timestamp_tag e of
        None \<Rightarrow> None
      | Some raw \<Rightarrow>
          (case try_formats strp [ColonFormat, DashFormat] (strip (before_nul raw)) of
             Some formatted \<Rightarrow> Some formatted
           | None \<Rightarrow> Some (strip (before_nul raw))))"
  by (cases "e = []")
    (simp_all add: app_get_exif_datetime_def timestamp_tag_def usable_def Let_def
      split: option.splits)

lemma get_exif_datetime_tag:
  "get_exif_datetime strp (Some e) =
     (case timestamp_tag e of
        None \<Rightarrow> None
      | Some raw \<Rightarrow>
          (case try_formats strp [ColonFormat] (strip (before_nul raw)) of
             Some formatted \<Rightarrow> Some formatted
           | None \<Rightarrow> Some (strip (before_nul raw))))"
  by (cases "e = []")
    (simp_all add: get_exif_datetime_def timestamp_tag_def usable_def Let_def
      split: option.splits)

lemma app_replacement:
  "(case app_get_exif_datetime strp img of
      Some s \<Rightarrow> if s \<noteq> [] then s else not_available
    | None \<Rightarrow> not_available) = exif_date_text strp [ColonFormat, DashFormat] img"
proof (cases img)
  case None
  then show ?thesis by (simp add: app_get_exif_datetime_def exif_date_text_def)
next
  case (Some e)
  show ?thesis
    unfolding Some app_get_exif_datetime_tag exif_date_text_def
    by (auto simp: strftime_nonempty split: option.splits)
qed

lemma tool_replacement:
  "(case get_exif_datetime strp img of
      Some s \<Rightarrow> if s \<noteq> [] then s else not_available
    | None \<Rightarrow> not_available) = exif_date_text strp [ColonFormat] img"
proof (cases img)
  case None
  then show ?thesis by (simp add: get_exif_datetime_def exif_date_text_def)
next
  case (Some e)
  show ?thesis
    unfolding Some get_exif_datetime_tag exif_date_text_def
    by (auto simp: strftime_nonempty split: option.splits)
qed

lemma strptime_unknown:
  "strptime ColonFormat (ustr ''unknown'') = None" "strptime DashFormat (ustr ''unknown'') = None"
  by (simp_all add: strptime_def ustr_def is_digit_def)

lemma strip_unknown: "strip (before_nul (ustr ''unknown'')) = ustr ''unknown''"
  by (simp add: strip_def before_nul_def ustr_def is_space_def)

text \<open>
  C7, as stated, fails where the timestamp is present and does not parse: the token is
  replaced by the tag's own text, not by N/A. With DateTimeOriginal = "unknown" the text
  "{exif_date}" becomes "unknown" in both implementations.
\<close>

theorem unparsed_timestamp_is_kept:
  "app_process_dynamic_text strptime (ustr ''{exif_date}'') (Some [(36867, EStr (ustr ''unknown''))])
     = ustr ''unknown''
   \<and> process_dynamic_text strptime (ustr ''{exif_date}'') (Some [(36867, EStr (ustr ''unknown''))])
     = ustr ''unknown''
   \<and> strptime ColonFormat (ustr ''unknown'') = None
   \<and> strptime DashFormat (ustr ''unknown'') = None
   \<and> ustr ''unknown'' \<noteq> not_available"
proof -
  have u: "usable (Some (EStr (ustr ''unknown''))) = Some (ustr ''unknown'')"
    by (simp add: usable_def ustr_def)
  have a: "app_get_exif_datetime strptime (Some [(36867, EStr (ustr ''unknown''))])
      = Some (ustr ''unknown'')"
    by (simp add: app_get_exif_datetime_def u strip_unknown strptime_unknown)
  have g: "get_exif_datetime strptime (Some [(36867, EStr (ustr ''unknown''))])
      = Some (ustr ''unknown'')"
    by (simp add: get_exif_datetime_def u strip_unknown strptime_unknown)
  have n: "ustr ''unknown'' \<noteq> []" "ustr ''unknown'' \<noteq> not_available"
    by (simp_all add: ustr_def not_available_def)
  have r: "py_in exif_date_token (ustr ''{exif_date}'')"
    "py_replace exif_date_token (ustr ''unknown'') (ustr ''{exif_date}'') = ustr ''unknown''"
    by (simp_all add: exif_date_token_def ustr_def)
  show ?thesis
    by (simp add: app_process_dynamic_text_def process_dynamic_text_def a g n r strptime_unknown)
qed

text \<open>
  C7, amended. A text without the token {exif_date} is returned unchanged. Otherwise each
  occurrence of the token is replaced by one text: N/A when the EXIF data cannot be read
  or carries no non-empty string in DateTimeOriginal or DateTime; the timestamp
  reformatted as YYYY-MM-DD HH:MM:SS when the tag's text (cut at the first NUL, stripped)
  parses in a format tried (picaddmark: with colons or dashes in the date; utils: with
  colons); and that text itself when it does not parse (N/A if it is empty).
\<close>

theorem dynamic_text_resolution:
  "app_process_dynamic_text strp text img =
     (if py_in exif_date_token text
      then py_replace exif_date_token (exif_date_text strp [ColonFormat, DashFormat] img) text
      else text)
   \<and> process_dynamic_text strp text img =
     (if py_in exif_date_token text
      then py_replace exif_date_token (exif_date_text strp [ColonFormat] img) text
      else text)"
  unfolding app_process_dynamic_text_def process_dynamic_text_def Let_def
    app_replacement tool_replacement
  by simp

theorem dynamic_text_resolution_witness:
  "app_process_dynamic_text strptime (ustr ''at {exif_date}'') None = ustr ''at N/A''
   \<and> process_dynamic_text strptime (ustr ''at {exif_date}'') None = ustr ''at N/A''
   \<and> app_process_dynamic_text strptime (ustr ''{exif_dat}'') None = ustr ''{exif_dat}''"
proof -
  have r: "py_in exif_date_token (ustr ''at {exif_date}'')"
    "\<not> py_in exif_date_token (ustr ''{exif_dat}'')"
    "py_replace exif_date_token not_available (ustr ''at {exif_date}'') = ustr ''at N/A''"
    by (simp_all add: exif_date_token_def not_available_def ustr_def)
  show ?thesis
    using dynamic_text_resolution [of strptime "ustr ''at {exif_date}''" None]
      dynamic_text_resolution [of strptime "ustr ''{exif_dat}''" None]
    by (simp add: r exif_date_text_def)
qed

lemma strptime_example:
  "strptime ColonFormat (ustr ''2023:05:17 08:30:00'')
     = Some \<lparr>year = 2023, month = 5, day = 17, hour = 8, minute = 30, second = 0\<rparr>"
  by (simp add: strptime_def ustr_def is_digit_def digits_value_def field_def expect_def
      day_token_def days_in_month_def leap_year_def is_space_def Let_def)

lemma strftime_example:
  "strftime \<lparr>year = 2023, month = 5, day = 17, hour = 8, minute = 30, second = 0\<rparr>
     = ustr ''2023-05-17 08:30:00''"
  by (simp add: strftime_def pad2_def pad4_def ustr_def)

text \<open>
  C10. When the EXIF data has no DateTimeOriginal (tag 36867) and its DateTime (tag 306)
  is a non-empty string that parses (cut at the first NUL and stripped, in the EXIF format
  with colons), the lookup of both implementations returns that timestamp formatted as
  YYYY-MM-DD HH:MM:SS (19 characters, not N/A), and the token {exif_date} is replaced by
  it.
\<close>

theorem datetime_tag_fallback:
  assumes "map_of e 36867 = None"
    and "map_of e 306 = Some (EStr s)"
    and "s \<noteq> []"
    and "strp ColonFormat (strip (before_nul s)) = Some dt"
  shows "app_get_exif_datetime strp (Some e) = Some (strftime dt)
       \<and> get_exif_datetime strp (Some e) = Some (strftime dt)
       \<and> length (strftime dt) = 19 \<and> strftime dt \<noteq> not_available
       \<and> app_process_dynamic_text strp text (Some e) =
           (if py_in exif_date_token text then py_replace exif_date_token (strftime dt) text
            else text)
       \<and> process_dynamic_text strp text (Some e) =
           (if py_in exif_date_token text then py_replace exif_date_token (strftime dt) text
            else text)"
proof -
  have t: "timestamp_tag e = Some s"
    using assms(1-3) by (simp add: timestamp_tag_def usable_def)
  have a: "app_get_exif_datetime strp (Some e) = Some (strftime dt)"
    unfolding app_get_exif_datetime_tag t using assms(4) by simp
  have g: "get_exif_datetime strp (Some e) = Some (strftime dt)"
    unfolding get_exif_datetime_tag t using assms(4) by simp
  have p: "app_process_dynamic_text strp text (Some e) =
           (if py_in exif_date_token text then py_replace exif_date_token (strftime dt) text
            else text)"
    unfolding app_process_dynamic_text_def Let_def a by (simp add: strftime_nonempty)
  have q: "process_dynamic_text strp text (Some e) =
           (if py_in exif_date_token text then py_replace exif_date_token (strftime dt) text
            else text)"
    unfolding process_dynamic_text_def Let_def g by (simp add: strftime_nonempty)
  show ?thesis
    using a g p q strftime_length [of dt] strftime_not_na [of dt] by simp
qed

theorem datetime_tag_fallback_witness:
  "app_get_exif_datetime strptime (Some [(306, EStr (ustr ''2023:05:17 08:30:00''))])
     = Some (ustr ''2023-05-17 08:30:00'')
   \<and> get_exif_datetime strptime (Some [(306, EStr (ustr ''2023:05:17 08:30:00''))])
     = Some (ustr ''2023-05-17 08:30:00'')
   \<and> app_process_dynamic_text strptime (ustr ''Shot {exif_date}'')
       (Some [(306, EStr (ustr ''2023:05:17 08:30:00''))]) = ustr ''Shot 2023-05-17 08:30:00''
   \<and> process_dynamic_text strptime (ustr ''Shot {exif_date}'')
       (Some [(306, EStr (ustr ''2023:05:17 08:30:00''))]) = ustr ''Shot 2023-05-17 08:30:00''"
proof -
  have h1: "map_of [(306, EStr (ustr ''2023:05:17 08:30:00''))] (36867::nat) = None"
    by simp
  have h2: "map_of [(306, EStr (ustr ''2023:05:17 08:30:00''))] (306::nat)
      = Some (EStr (ustr ''2023:05:17 08:30:00''))"
    by simp
  have h3: "ustr ''2023:05:17 08:30:00'' \<noteq> []"
    by (simp add: ustr_def)
  have c: "strip (before_nul (ustr ''2023:05:17 08:30:00'')) = ustr ''2023:05:17 08:30:00''"
    by (simp add: strip_def before_nul_def ustr_def is_space_def)
  have h4: "strptime ColonFormat (strip (before_nul (ustr ''2023:05:17 08:30:00'')))
      = Some \<lparr>year = 2023, month = 5, day = 17, hour = 8, minute = 30, second = 0\<rparr>"
    unfolding c by (rule strptime_example)
  have r: "py_in exif_date_token (ustr ''Shot {exif_date}'')"
    "py_replace exif_date_token (ustr ''2023-05-17 08:30:00'') (ustr ''Shot {exif_date}'')
       = ustr ''Shot 2023-05-17 08:30:00''"
    by (simp_all add: exif_date_token_def ustr_def)
  show ?thesis
    using datetime_tag_fallback [of _ _ strptime _ "ustr ''Shot {exif_date}''", OF h1 h2 h3 h4]
    unfolding strftime_example by (simp add: r)
qed

section \<open>Results: batch processing\<close>

lemma length_succeeded_failed:
  "length (succeeded process fs) + length (failed process fs) = length fs"
  by (induction fs) (auto simp: succeeded_def failed_def split: option.splits)

lemma reached_never: "\<forall>i. \<not> stop_at i \<Longrightarrow> reached stop_at i fs = fs"
  by (induction fs arbitrary: i) auto

lemma reached_first:
  "\<forall>j<k. \<not> stop_at (i + j) \<Longrightarrow> stop_at (i + k) \<Longrightarrow> k < length fs
   \<Longrightarrow> reached stop_at i fs = take k fs"
proof (induction fs arbitrary: i k)
  case Nil
  then show ?case by simp
next
  case (Cons f fs)
  show ?case
  proof (cases k)
    case 0
    with Cons.prems show ?thesis by simp
  next
    case (Suc k')
    have n: "\<not> stop_at i"
      using Cons.prems(1) Suc by (metis add.right_neutral zero_less_Suc)
    have "\<forall>j<k'. \<not> stop_at (Suc i + j)"
      using Cons.prems(1) Suc by (metis Suc_less_eq add_Suc_shift)
    moreover have "stop_at (Suc i + k')"
      using Cons.prems(2) Suc by simp
    moreover have "k' < length fs"
      using Cons.prems(3) Suc by simp
    ultimately have "reached stop_at (Suc i) fs = take k' fs"
      by (rule Cons.IH)
    then show ?thesis
      using n Suc by simp
  qed
qed

lemma app_loop_reached:
  "app_loop process stop_at n_total i fs (p, s, q) =
     (p + length (succeeded process (reached stop_at i fs)),
      s + length (failed process (reached stop_at i fs)),
      q @ item_events process n_total i (reached stop_at i fs))"
  by (induction fs arbitrary: i p s q)
    (auto simp: succeeded_def failed_def split: option.splits)

lemma tool_loop_reached:
  "tool_loop process stop_at n_total i fs st =
     \<lparr>processed_count = processed_count st + length (succeeded process (reached stop_at i fs)),
      error_count = error_count st + length (failed process (reached stop_at i fs)),
      queue = queue st @ tool_item_messages n_total i (reached stop_at i fs),
      log = log st @ failed process (reached stop_at i fs)\<rparr>"
  by (induction fs arbitrary: i st)
    (auto simp: succeeded_def failed_def Let_def split: option.splits)

lemma errors_of_item_events:
  "filter is_error (item_events process n_total i fs) = map (\<lambda>(f, e). Error f e) (failed process fs)"
  by (induction fs arbitrary: i) (auto simp: failed_def is_error_def split: option.splits)

lemma progress_of_item_events:
  "filter is_progress (item_events process n_total i fs) = progress_events n_total i fs"
  by (induction fs arbitrary: i) (auto simp: is_progress_def split: option.splits)

lemma threaded_add_watermarks_reached:
  "threaded_add_watermarks (Inr files) process stop_at =
     item_events process (length files) 0 (reached stop_at 0 files)
     @ [Finished (length (succeeded process (reached stop_at 0 files)))
          (length (failed process (reached stop_at 0 files))) None]"
  by (cases files) (simp_all add: threaded_add_watermarks_def app_loop_reached succeeded_def failed_def)

lemma process_images_thread_reached:
  "process_images_thread (Inr u) files process stop_at stop_after =
     \<lparr>processed_count = length (succeeded process (reached stop_at 0 files)),
      error_count = length (failed process (reached stop_at 0 files)),
      queue = StatusStart # tool_item_messages (length files) 0 (reached stop_at 0 files)
              @ (if stop_after then [StatusCancelled]
                 else StatusDone (length (succeeded process (reached stop_at 0 files)))
                        (length (failed process (reached stop_at 0 files)))
                      # (if length (succeeded process (reached stop_at 0 files)) > 0
                         then [InfoSaved] else []))
              @ [EnableControls],
      log = failed process (reached stop_at 0 files)\<rparr>"
  by (simp add: process_images_thread_def tool_loop_reached Let_def)

text \<open>
  C8. When no stop is requested and the set-up succeeds, every item is handled whatever
  the others did: the queue of WatermarkApp holds one progress message per item, an
  error message after each item that failed, naming it, and last the message
  finished(processed, skipped, no error) with processed the number of successes and
  skipped the number of failures; the completion handler then shows the dialog of a
  completed run. WatermarkTool counts and logs the failures and ends with the status
  of a completed run carrying both counts.
\<close>

theorem item_failures_do_not_abort:
  assumes "\<forall>i. \<not> stop_at i" and "\<not> stop_final"
  shows "threaded_add_watermarks (Inr files) process stop_at =
           item_events process (length files) 0 files
           @ [Finished (length (succeeded process files)) (length (failed process files)) None]
       \<and> filter is_error (threaded_add_watermarks (Inr files) process stop_at)
           = map (\<lambda>(f, e). Error f e) (failed process files)
       \<and> filter is_progress (threaded_add_watermarks (Inr files) process stop_at)
           = progress_events (length files) 0 files
       \<and> length (succeeded process files) + length (failed process files) = length files
       \<and> handle_completion stop_final None = (LabelDone, DialogCompleted)
       \<and> process_images_thread (Inr u) files process stop_at stop_final =
           \<lparr>processed_count = length (succeeded process files),
            error_count = length (failed process files),
            queue = StatusStart # tool_item_messages (length files) 0 files
                    @ StatusDone (length (succeeded process files)) (length (failed process files))
                      # (if length (succeeded process files) > 0 then [InfoSaved] else [])
                    @ [EnableControls],
            log = failed process files\<rparr>"
proof -
  have r: "reached stop_at 0 files = files"
    using assms(1) by (rule reached_never)
  have a: "threaded_add_watermarks (Inr files) process stop_at =
           item_events process (length files) 0 files
           @ [Finished (length (succeeded process files)) (length (failed process files)) None]"
    unfolding threaded_add_watermarks_reached r by (rule refl)
  have e: "filter is_error (threaded_add_watermarks (Inr files) process stop_at)
           = map (\<lambda>(f, e). Error f e) (failed process files)"
    unfolding a by (simp add: errors_of_item_events is_error_def)
  have p: "filter is_progress (threaded_add_watermarks (Inr files) process stop_at)
           = progress_events (length files) 0 files"
    unfolding a by (simp add: progress_of_item_events is_progress_def)
  have h: "handle_completion stop_final None = (LabelDone, DialogCompleted)"
    using assms(2) by (simp add: handle_completion_def truthy_def)
  have t: "process_images_thread (Inr u) files process stop_at stop_final =
           \<lparr>processed_count = length (succeeded process files),
            error_count = length (failed process files),
            queue = StatusStart # tool_item_messages (length files) 0 files
                    @ StatusDone (length (succeeded process files)) (length (failed process files))
                      # (if length (succeeded process files) > 0 then [InfoSaved] else [])
                    @ [EnableControls],
            log = failed process files\<rparr>"
    unfolding process_images_thread_reached r using assms(2) by simp
  show ?thesis
    using a e p h t length_succeeded_failed [of process files] by simp
qed

theorem item_failures_do_not_abort_witness:
  "threaded_add_watermarks (Inr [ustr ''a.jpg'', ustr ''bad.jpg'', ustr ''c.jpg''])
     (\<lambda>f. if f = ustr ''bad.jpg'' then Some (ustr ''cannot identify image file'') else None)
     (\<lambda>i. False)
   = [Progress 1 3 (ustr ''a.jpg''), Progress 2 3 (ustr ''bad.jpg''),
      Error (ustr ''bad.jpg'') (ustr ''cannot identify image file''),
      Progress 3 3 (ustr ''c.jpg''), Finished 2 1 None]
   \<and> handle_completion False None = (LabelDone, DialogCompleted)
   \<and> processed_count (process_images_thread (Inr ())
        [ustr ''a.jpg'', ustr ''bad.jpg'', ustr ''c.jpg'']
        (\<lambda>f. if f = ustr ''bad.jpg'' then Some (ustr ''cannot identify image file'') else None)
        (\<lambda>i. False) False) = 2
   \<and> error_count (process_images_thread (Inr ())
        [ustr ''a.jpg'', ustr ''bad.jpg'', ustr ''c.jpg'']
        (\<lambda>f. if f = ustr ''bad.jpg'' then Some (ustr ''cannot identify image file'') else None)
        (\<lambda>i. False) False) = 1"
proof -
  have h1: "\<forall>i::nat. \<not> (\<lambda>i. False) i" by simp
  have h2: "\<not> False" by simp
  show ?thesis
    using item_failures_do_not_abort [OF h1 h2,
        of "[ustr ''a.jpg'', ustr ''bad.jpg'', ustr ''c.jpg'']"
           "\<lambda>f. if f = ustr ''bad.jpg'' then Some (ustr ''cannot identify image file'') else None"
           "()"]
    by (simp add: succeeded_def failed_def ustr_def)
qed

text \<open>
  C9. The flag is read before each item. When the check before the item with index k is
  the first to see it set, the loop ends there: the items before k have been handled,
  no message concerns a later item, the queue of WatermarkApp ends with
  finished(processed, skipped, no error) where processed is the number of the first k
  items that succeeded (and processed + skipped = k), and, the flag staying set, the
  completion handler shows the dialog of a stopped run; WatermarkTool ends with the
  status of a cancelled run.
\<close>

theorem cancellation_stops_the_batch:
  assumes "k < length files" and "\<forall>j<k. \<not> stop_at j" and "stop_at k" and "stop_final"
  shows "threaded_add_watermarks (Inr files) process stop_at =
           item_events process (length files) 0 (take k files)
           @ [Finished (length (succeeded process (take k files)))
                (length (failed process (take k files))) None]
       \<and> length (succeeded process (take k files)) + length (failed process (take k files)) = k
       \<and> handle_completion stop_final None = (LabelStopped, DialogStopped)
       \<and> process_images_thread (Inr u) files process stop_at stop_final =
           \<lparr>processed_count = length (succeeded process (take k files)),
            error_count = length (failed process (take k files)),
            queue = StatusStart # tool_item_messages (length files) 0 (take k files)
                    @ [StatusCancelled, EnableControls],
            log = failed process (take k files)\<rparr>"
proof -
  have r: "reached stop_at 0 files = take k files"
    using assms(1-3) reached_first [of k stop_at 0 files] by simp
  have a: "threaded_add_watermarks (Inr files) process stop_at =
           item_events process (length files) 0 (take k files)
           @ [Finished (length (succeeded process (take k files)))
                (length (failed process (take k files))) None]"
    unfolding threaded_add_watermarks_reached r by (rule refl)
  have c: "length (succeeded process (take k files)) + length (failed process (take k files)) = k"
    using assms(1) length_succeeded_failed [of process "take k files"] by simp
  have h: "handle_completion stop_final None = (LabelStopped, DialogStopped)"
    using assms(4) by (simp add: handle_completion_def truthy_def)
  have t: "process_images_thread (Inr u) files process stop_at stop_final =
           \<lparr>processed_count = length (succeeded process (take k files)),
            error_count = length (failed process (take k files)),
            queue = StatusStart # tool_item_messages (length files) 0 (take k files)
                    @ [StatusCancelled, EnableControls],
            log = failed process (take k files)\<rparr>"
    unfolding process_images_thread_reached r using assms(4) by simp
  show ?thesis
    using a c h t by simp
qed

theorem cancellation_stops_the_batch_witness:
  "threaded_add_watermarks (Inr [ustr ''1.png'', ustr ''2.png'', ustr ''3.png'', ustr ''4.png'', ustr ''5.png''])
     (\<lambda>f. None) (\<lambda>i. 1 \<le> i)
   = [Progress 1 5 (ustr ''1.png''), Finished 1 0 None]
   \<and> handle_completion True None = (LabelStopped, DialogStopped)
   \<and> queue (process_images_thread (Inr ())
        [ustr ''1.png'', ustr ''2.png'', ustr ''3.png'', ustr ''4.png'', ustr ''5.png'']
        (\<lambda>f. None) (\<lambda>i. 1 \<le> i) True)
     = [StatusStart, ProgressPercent 20, StatusItem 1 5 (ustr ''1.png''), StatusCancelled,
        EnableControls]"
proof -
  have h1: "(1::nat) < length [ustr ''1.png'', ustr ''2.png'', ustr ''3.png'', ustr ''4.png'', ustr ''5.png'']"
    by simp
  have h2: "\<forall>j<1::nat. \<not> (\<lambda>i. 1 \<le> i) j" by simp
  have h3: "(\<lambda>i::nat. 1 \<le> i) 1" by simp
  have h4: "True" by simp
  show ?thesis
    using cancellation_stops_the_batch [OF h1 h2 h3 h4, of "\<lambda>f. None" "()"]
    by (simp add: succeeded_def failed_def)
qed

section \<open>Results: line layout\<close>

lemma run_texts_append: "run_texts (xs @ ys) = run_texts xs @ run_texts ys"
  by (simp add: run_texts_def)

lemma items_text_append: "items_text (xs @ ys) = items_text xs @ items_text ys"
  by (simp add: items_text_def)

lemma place_texts: "run_texts (place x y its) = items_text its"
  by (induction its arbitrary: x) (simp_all add: run_texts_def items_text_def)

lemma forced_break_texts:
  "run_texts (fst (forced_break xs mw its tx th y)) = items_text its"
  by (induction its arbitrary: tx th y) (simp_all add: run_texts_def items_text_def Let_def)

lemma word_chars_metrics_text: "items_text (word_chars_metrics m w) = w"
  by (induction w) (simp_all add: items_text_def word_chars_metrics_def char_item_def)

lemma items_text_Nil: "items_text [] = []"
  by (simp add: items_text_def)

lemma items_text_Cons: "items_text (it # its) = itext it @ items_text its"
  by (simp add: items_text_def)

lemma space_item_text: "itext (space_item m sw) = [32]"
  by (simp add: space_item_def)

lemma spaced_Cons: "spaced (w # ws) = 32 # w @ spaced ws"
  by (simp add: spaced_def)

lemma spaced_split_space: "spaced (split_space s) = 32 # s"
proof (induction s)
  case Nil
  show ?case by (simp add: spaced_def)
next
  case (Cons c cs)
  show ?case
  proof (cases "c = 32")
    case True
    then show ?thesis using Cons.IH by (simp add: spaced_Cons)
  next
    case False
    show ?thesis
    proof (cases "split_space cs")
      case Nil
      with Cons.IH show ?thesis by (simp add: spaced_def)
    next
      case (Cons w ws)
      with Cons.IH False show ?thesis by (simp add: spaced_Cons)
    qed
  qed
qed

lemma split_space_not_Nil: "split_space s \<noteq> []"
  by (cases s) (auto split: list.splits)

lemma subseq_spaced_first:
  "subseq R (spaced rest) \<Longrightarrow> subseq (word @ R) (tl (spaced (word # rest)))"
  by (simp add: spaced_Cons subseq_append')

lemma subseq_spaced_drop:
  "subseq R (tl (spaced (word # rest))) \<Longrightarrow> subseq R (spaced (word # rest))"
  by (simp add: spaced_Cons list_emb_Cons)

lemma subseq_spaced_next:
  "subseq R (spaced rest) \<Longrightarrow> subseq (32 # word @ R) (spaced (word # rest))"
  by (simp add: spaced_Cons subseq_append')

lemma filter_spaced_Cons:
  "filter (\<lambda>c. c \<noteq> 32) (spaced (w # ws))
     = filter (\<lambda>c. c \<noteq> 32) w @ filter (\<lambda>c. c \<noteq> (32::nat)) (spaced ws)"
  by (simp add: spaced_Cons)

lemma draw_loop_content:
  "\<exists>R. run_texts (draw_loop m sw xs mw ws buf clw y out) = run_texts out @ items_text buf @ R
       \<and> subseq R (spaced ws)
       \<and> (buf = [] \<and> ws \<noteq> [] \<longrightarrow> subseq R (tl (spaced ws)))
       \<and> filter (\<lambda>c. c \<noteq> 32) R = filter (\<lambda>c. c \<noteq> 32) (spaced ws)"
proof (induction m sw xs mw ws buf clw y out rule: draw_loop.induct)
  case (1 m sw xs mw buf clw y out)
  show ?case
    by (rule exI [of _ "[]"])
      (simp add: draw_loop.simps run_texts_append place_texts spaced_def items_text_def)
next
  case (2 m sw xs mw word rest buf clw y out)
  let ?items = "word_chars_metrics m word"
  let ?fits = "(if buf = [] then clw else clw + sw) + items_width ?items \<le> mw"
  show ?case
  proof (cases ?fits)
    case fits: True
    show ?thesis
    proof (cases "buf = []")
      case True
      from "2.IH"(1) [OF fits True] obtain R where
        R: "run_texts (draw_loop m sw xs mw rest (buf @ ?items) (clw + items_width ?items) y out)
            = run_texts out @ items_text (buf @ ?items) @ R"
          "subseq R (spaced rest)"
          "filter (\<lambda>c. c \<noteq> 32) R = filter (\<lambda>c. c \<noteq> 32) (spaced rest)"
        by blast
      have eq: "draw_loop m sw xs mw (word # rest) buf clw y out
          = draw_loop m sw xs mw rest (buf @ ?items) (clw + items_width ?items) y out"
        using fits True by (simp add: draw_loop.simps)
      have a: "run_texts (draw_loop m sw xs mw (word # rest) buf clw y out)
          = run_texts out @ items_text buf @ word @ R"
        unfolding eq R(1) by (simp add: items_text_append word_chars_metrics_text)
      have b: "subseq (word @ R) (tl (spaced (word # rest)))"
        using R(2) by (rule subseq_spaced_first)
      have c: "filter (\<lambda>c. c \<noteq> 32) (word @ R) = filter (\<lambda>c. c \<noteq> 32) (spaced (word # rest))"
        unfolding filter_spaced_Cons using R(3) by simp
      show ?thesis
        using a b c subseq_spaced_drop [OF b] by blast
    next
      case False
      from "2.IH"(2) [OF fits False] obtain R where
        R: "run_texts (draw_loop m sw xs mw rest (buf @ [space_item m sw] @ ?items)
              (clw + sw + items_width ?items) y out)
            = run_texts out @ items_text (buf @ [space_item m sw] @ ?items) @ R"
          "subseq R (spaced rest)"
          "filter (\<lambda>c. c \<noteq> 32) R = filter (\<lambda>c. c \<noteq> 32) (spaced rest)"
        by blast
      have eq: "draw_loop m sw xs mw (word # rest) buf clw y out
          = draw_loop m sw xs mw rest (buf @ [space_item m sw] @ ?items)
              (clw + sw + items_width ?items) y out"
        using fits False by (simp add: draw_loop.simps)
      have a: "run_texts (draw_loop m sw xs mw (word # rest) buf clw y out)
          = run_texts out @ items_text buf @ (32 # word @ R)"
        unfolding eq R(1)
        by (simp add: items_text_append items_text_Cons word_chars_metrics_text space_item_text)
      have b: "subseq (32 # word @ R) (spaced (word # rest))"
        using R(2) by (rule subseq_spaced_next)
      have c: "filter (\<lambda>c. c \<noteq> 32) (32 # word @ R)
          = filter (\<lambda>c. c \<noteq> 32) (spaced (word # rest))"
        unfolding filter_spaced_Cons using R(3) by simp
      show ?thesis
        using a b c False by blast
    qed
  next
    case nofit: False
    show ?thesis
    proof (cases "buf = []")
      case True
      let ?f = "forced_break xs mw ?items xs 0 y"
      from "2.IH"(3) [OF nofit True] obtain R where
        R: "run_texts (draw_loop m sw xs mw rest [] 0 (snd ?f) (out @ fst ?f))
            = run_texts (out @ fst ?f) @ items_text [] @ R"
          "subseq R (spaced rest)"
          "filter (\<lambda>c. c \<noteq> 32) R = filter (\<lambda>c. c \<noteq> 32) (spaced rest)"
        by blast
      have eq: "draw_loop m sw xs mw (word # rest) buf clw y out
          = draw_loop m sw xs mw rest [] 0 (snd ?f) (out @ fst ?f)"
        using nofit True by (simp add: draw_loop.simps)
      have a: "run_texts (draw_loop m sw xs mw (word # rest) buf clw y out)
          = run_texts out @ items_text buf @ word @ R"
        unfolding eq R(1) using True
        by (simp add: run_texts_append forced_break_texts word_chars_metrics_text items_text_Nil)
      have b: "subseq (word @ R) (tl (spaced (word # rest)))"
        using R(2) by (rule subseq_spaced_first)
      have c: "filter (\<lambda>c. c \<noteq> 32) (word @ R) = filter (\<lambda>c. c \<noteq> 32) (spaced (word # rest))"
        unfolding filter_spaced_Cons using R(3) by simp
      show ?thesis
        using a b c subseq_spaced_drop [OF b] by blast
    next
      case False
      from "2.IH"(4) [OF nofit False] obtain R where
        R: "run_texts (draw_loop m sw xs mw (word # rest) [] 0 (y + line_height buf)
              (out @ place xs y buf))
            = run_texts (out @ place xs y buf) @ items_text [] @ R"
          "subseq R (tl (spaced (word # rest)))"
          "filter (\<lambda>c. c \<noteq> 32) R = filter (\<lambda>c. c \<noteq> 32) (spaced (word # rest))"
        by blast
      have eq: "draw_loop m sw xs mw (word # rest) buf clw y out
          = draw_loop m sw xs mw (word # rest) [] 0 (y + line_height buf) (out @ place xs y buf)"
        using nofit False by (simp add: draw_loop.simps)
      have a: "run_texts (draw_loop m sw xs mw (word # rest) buf clw y out)
          = run_texts out @ items_text buf @ R"
        unfolding eq R(1) by (simp add: run_texts_append place_texts items_text_Nil)
      show ?thesis
        using a R(3) False subseq_spaced_drop [OF R(2)] by blast
    qed
  qed
qed

lemma word_width_nonneg:
  "\<forall>f c. 0 \<le> fst (m f c) \<Longrightarrow> 0 \<le> items_width (word_chars_metrics m w)"
  by (induction w) (simp_all add: items_width_def word_chars_metrics_def char_item_def)

lemma line_width_nonneg:
  "\<forall>f c. 0 \<le> fst (m f c) \<Longrightarrow> 0 \<le> sw \<Longrightarrow> 0 \<le> line_width m sw ws"
  by (induction ws) (simp_all add: line_width_def word_width_nonneg)

lemma line_width_Cons:
  "line_width m sw (w # ws) = sw + items_width (word_chars_metrics m w) + line_width m sw ws"
  by (simp add: line_width_def)

lemma draw_loop_one_line:
  "\<forall>f c. 0 \<le> fst (m f c) \<Longrightarrow> 0 \<le> sw \<Longrightarrow> buf \<noteq> [] \<Longrightarrow> clw + line_width m sw ws \<le> mw
   \<Longrightarrow> run_texts (draw_loop m sw xs mw ws buf clw y out)
       = run_texts out @ items_text buf @ spaced ws"
proof (induction ws arbitrary: buf clw)
  case Nil
  then show ?case
    by (simp add: draw_loop.simps run_texts_append place_texts spaced_def)
next
  case (Cons w ws)
  let ?items = "word_chars_metrics m w"
  have n: "0 \<le> line_width m sw ws"
    using Cons.prems(1,2) by (rule line_width_nonneg)
  have fits: "clw + sw + items_width ?items \<le> mw"
    using Cons.prems(4) n by (simp add: line_width_Cons)
  have eq: "draw_loop m sw xs mw (w # ws) buf clw y out
      = draw_loop m sw xs mw ws (buf @ [space_item m sw] @ ?items)
          (clw + sw + items_width ?items) y out"
    using fits Cons.prems(3) by (simp add: draw_loop.simps)
  have "run_texts (draw_loop m sw xs mw ws (buf @ [space_item m sw] @ ?items)
          (clw + sw + items_width ?items) y out)
      = run_texts out @ items_text (buf @ [space_item m sw] @ ?items) @ spaced ws"
    using Cons.prems(1,2,4) by (intro Cons.IH) (simp_all add: line_width_Cons)
  then show ?case
    unfolding eq
    by (simp add: items_text_append items_text_Cons word_chars_metrics_text space_item_text
        spaced_Cons)
qed

lemma split_space_first:
  "c \<noteq> 32 \<Longrightarrow> \<exists>w ws. split_space (c # cs) = (c # w) # ws"
  by (cases "split_space cs") simp_all

lemma draw_watermark_one_line:
  assumes "\<forall>f c. 0 \<le> fst (m f c)" and "0 \<le> sw" and "take 1 text \<noteq> [32]"
    and "line_width m sw (split_space text) - sw \<le> mw"
  shows "run_texts (draw_watermark m sw text xs ys mw) = text"
proof (cases "text")
  case Nil
  then show ?thesis by (simp add: draw_watermark_def run_texts_def)
next
  case (Cons c cs)
  have c: "c \<noteq> 32"
    using assms(3) Cons by simp
  then obtain w ws where s: "split_space text = (c # w) # ws"
    using split_space_first [of c cs] Cons by auto
  let ?items = "word_chars_metrics m (c # w)"
  have ne: "?items \<noteq> []"
    by (simp add: word_chars_metrics_def)
  have l: "items_width ?items + line_width m sw ws \<le> mw"
    using assms(4) unfolding s by (simp add: line_width_Cons)
  have n: "0 \<le> line_width m sw ws"
    using assms(1,2) by (rule line_width_nonneg)
  have eq: "draw_loop m sw xs mw ((c # w) # ws) [] 0 ys []
      = draw_loop m sw xs mw ws ([] @ ?items) (0 + items_width ?items) ys []"
    using l n by (simp add: draw_loop.simps)
  have "run_texts (draw_loop m sw xs mw ws ([] @ ?items) (0 + items_width ?items) ys [])
      = run_texts [] @ items_text ([] @ ?items) @ spaced ws"
    using assms(1,2) ne l by (intro draw_loop_one_line) simp_all
  then have "run_texts (draw_loop m sw xs mw (split_space text) [] 0 ys []) = (c # w) @ spaced ws"
    unfolding s eq by (simp add: run_texts_def word_chars_metrics_text)
  moreover have "(c # w) @ spaced ws = text"
    using spaced_split_space [of "text"] unfolding s by (simp add: spaced_Cons)
  ultimately show ?thesis
    using Cons by (simp add: draw_watermark_def)
qed

text \<open>
  C1, as stated, fails: the space before a word that is moved to a new line is not
  emitted. For "a b" with characters 10 wide, a space 5 wide and a line of width 15 the
  runs are "a" and "b", and their concatenation is "ab".
\<close>

theorem wrapped_line_drops_space:
  "run_texts (draw_watermark (\<lambda>f c. (10, 10)) 5 (ustr ''a b'') 0 0 15) = ustr ''ab''
   \<and> ustr ''ab'' \<noteq> ustr ''a b''"
  by (simp add: draw_watermark_def ustr_def draw_loop.simps word_chars_metrics_def items_width_def
      char_item_def space_item_def run_texts_def line_height_def)

text \<open>
  C1, amended. For every input text, font pair, space width, origin and maxWidth, the
  concatenation of the texts of all runs in emission order is the input text with some of
  its spaces left out and nothing else changed: it is a subsequence of the input, and it
  has the same characters other than spaces, in the same order. When no width is
  negative, the text does not begin with a space and its words, with one space width
  between neighbours, are together no wider than maxWidth, the concatenation is the input
  text.
\<close>

theorem run_texts_keep_content:
  "subseq (run_texts (draw_watermark m space_width text x_start y_start max_width)) text
   \<and> filter (\<lambda>c. c \<noteq> 32) (run_texts (draw_watermark m space_width text x_start y_start max_width))
     = filter (\<lambda>c. c \<noteq> 32) text
   \<and> ((\<forall>f c. 0 \<le> fst (m f c)) \<and> 0 \<le> space_width \<and> take 1 text \<noteq> [32]
        \<and> line_width m space_width (split_space text) - space_width \<le> max_width
      \<longrightarrow> run_texts (draw_watermark m space_width text x_start y_start max_width) = text)"
proof -
  have one: "(\<forall>f c. 0 \<le> fst (m f c)) \<and> 0 \<le> space_width \<and> take 1 text \<noteq> [32]
        \<and> line_width m space_width (split_space text) - space_width \<le> max_width
      \<longrightarrow> run_texts (draw_watermark m space_width text x_start y_start max_width) = text"
    using draw_watermark_one_line [of m space_width "text" max_width x_start y_start] by blast
  show ?thesis
  proof (cases "text = []")
    case True
    then show ?thesis by (simp add: draw_watermark_def run_texts_def)
  next
    case False
    obtain R where R:
      "run_texts (draw_loop m space_width x_start max_width (split_space text) [] 0 y_start [])
         = run_texts [] @ items_text [] @ R"
      "[] = ([]::item list) \<and> split_space text \<noteq> [] \<longrightarrow> subseq R (tl (spaced (split_space text)))"
      "filter (\<lambda>c. c \<noteq> 32) R = filter (\<lambda>c. c \<noteq> 32) (spaced (split_space text))"
      using draw_loop_content [of m space_width x_start max_width "split_space text" "[]" 0 y_start "[]"]
      by blast
    have "run_texts (draw_watermark m space_width text x_start y_start max_width) = R"
      using False R(1) by (simp add: draw_watermark_def run_texts_def items_text_def)
    moreover have "subseq R text"
      using R(2) by (simp add: split_space_not_Nil spaced_split_space)
    moreover have "filter (\<lambda>c. c \<noteq> 32) R = filter (\<lambda>c. c \<noteq> 32) text"
      using R(3) by (simp add: spaced_split_space)
    ultimately show ?thesis using one by simp
  qed
qed

theorem run_texts_keep_content_witness:
  "subseq (ustr ''ab'') (ustr ''a b'')
   \<and> filter (\<lambda>c. c \<noteq> 32) (ustr ''ab'') = filter (\<lambda>c. c \<noteq> 32) (ustr ''a b'')
   \<and> run_texts (draw_watermark (\<lambda>f c. (10, 10)) 5 (ustr ''a b'') 0 0 15) = ustr ''ab''
   \<and> line_width (\<lambda>f c. (10, 10)) 5 (split_space (ustr ''a b'')) - 5 = 25
   \<and> run_texts (draw_watermark (\<lambda>f c. (10, 10)) 5 (ustr ''a b'') 0 0 25) = ustr ''a b''"
proof -
  have e: "run_texts (draw_watermark (\<lambda>f c. (10, 10)) 5 (ustr ''a b'') 0 0 15) = ustr ''ab''"
    by (simp add: draw_watermark_def ustr_def draw_loop.simps word_chars_metrics_def items_width_def
        char_item_def space_item_def run_texts_def line_height_def)
  have l: "line_width (\<lambda>f c. (10, 10)) 5 (split_space (ustr ''a b'')) - 5 = 25"
    by (simp add: line_width_def ustr_def word_chars_metrics_def items_width_def char_item_def)
  have t: "take 1 (ustr ''a b'') \<noteq> [32]"
    by (simp add: ustr_def)
  have f: "run_texts (draw_watermark (\<lambda>f c. (10, 10)) 5 (ustr ''a b'') 0 0 25) = ustr ''a b''"
    using run_texts_keep_content [of "\<lambda>f c. (10, 10)" 5 "ustr ''a b''" 0 0 25] l t by simp
  show ?thesis
    using run_texts_keep_content [of "\<lambda>f c. (10, 10)" 5 "ustr ''a b''" 0 0 15] l f
    unfolding e by simp
qed

section \<open>Results: line layout, geometry\<close>

lemma good_items_append: "good_items (xs @ ys) = (good_items xs \<and> good_items ys)"
  by (simp add: good_items_def)

lemma good_items_Cons:
  "good_items (it # its) = (0 \<le> iwidth it \<and> length (itext it) = 1 \<and> good_items its)"
  by (simp add: good_items_def)

lemma good_items_Nil: "good_items []"
  by (simp add: good_items_def)

lemma good_word_chars_metrics:
  "\<forall>f c. 0 \<le> fst (m f c) \<Longrightarrow> good_items (word_chars_metrics m word)"
  by (induction word) (simp_all add: good_items_def word_chars_metrics_def char_item_def)

lemma good_space_item: "0 \<le> sw \<Longrightarrow> good_items [space_item m sw]"
  by (simp add: good_items_def space_item_def)

lemma items_width_Nil: "items_width [] = 0"
  by (simp add: items_width_def)

lemma items_width_Cons: "items_width (it # its) = iwidth it + items_width its"
  by (simp add: items_width_def)

lemma items_width_append: "items_width (xs @ ys) = items_width xs + items_width ys"
  by (simp add: items_width_def)

lemma items_width_nonneg: "good_items its \<Longrightarrow> 0 \<le> items_width its"
  by (induction its) (simp_all add: items_width_Nil items_width_Cons good_items_Cons)

lemma place_within:
  "good_items its \<Longrightarrow> xs \<le> x \<Longrightarrow> x + items_width its \<le> xs + mw
   \<Longrightarrow> \<forall>r\<in>set (place x y its). within_line xs mw r"
proof (induction its arbitrary: x)
  case Nil
  show ?case by simp
next
  case (Cons it its)
  have g: "0 \<le> iwidth it" "length (itext it) = 1" "good_items its"
    using Cons.prems(1) by (simp_all add: good_items_Cons)
  have n: "0 \<le> items_width its"
    using g(3) by (rule items_width_nonneg)
  have h: "within_line xs mw \<lparr>run_x = x, run_y = y, run_item = it\<rparr>"
    using Cons.prems(2,3) g n by (simp add: within_line_def items_width_Cons)
  have "\<forall>r\<in>set (place (x + iwidth it) y its). within_line xs mw r"
    using Cons.prems(2,3) g by (intro Cons.IH) (simp_all add: items_width_Cons)
  with h show ?case by simp
qed

lemma forced_break_within:
  "good_items its \<Longrightarrow> xs \<le> tx
   \<Longrightarrow> \<forall>r\<in>set (fst (forced_break xs mw its tx th y)). within_line xs mw r"
proof (induction its arbitrary: tx th y)
  case Nil
  show ?case by simp
next
  case (Cons it its)
  have g: "0 \<le> iwidth it" "length (itext it) = 1" "good_items its"
    using Cons.prems(1) by (simp_all add: good_items_Cons)
  let ?wrap = "tx > xs \<and> tx + iwidth it > xs + mw"
  let ?tx1 = "if ?wrap then xs else tx"
  let ?y1 = "if ?wrap then y + (if th > 0 then th else iheight it) else y"
  let ?th1 = "if ?wrap then 0 else th"
  have h: "within_line xs mw \<lparr>run_x = ?tx1, run_y = ?y1, run_item = it\<rparr>"
    using Cons.prems(2) g by (auto simp: within_line_def)
  have "xs \<le> ?tx1 + iwidth it"
    using Cons.prems(2) g by auto
  then have "\<forall>r\<in>set (fst (forced_break xs mw its (?tx1 + iwidth it) (max ?th1 (iheight it)) ?y1)).
      within_line xs mw r"
    using g(3) by (intro Cons.IH)
  with h show ?case by (simp add: Let_def)
qed

lemma draw_loop_within:
  "\<forall>f c. 0 \<le> fst (m f c) \<Longrightarrow> 0 \<le> sw
   \<Longrightarrow> \<forall>r\<in>set out. within_line xs mw r \<Longrightarrow> good_items buf
   \<Longrightarrow> clw = items_width buf \<Longrightarrow> buf = [] \<or> clw \<le> mw
   \<Longrightarrow> \<forall>r\<in>set (draw_loop m sw xs mw ws buf clw y out). within_line xs mw r"
proof (induction m sw xs mw ws buf clw y out rule: draw_loop.induct)
  case (1 m sw xs mw buf clw y out)
  show ?case
  proof (cases "buf = []")
    case True
    with "1.prems"(3) show ?thesis by (simp add: draw_loop.simps)
  next
    case False
    have "\<forall>r\<in>set (place xs y buf). within_line xs mw r"
      using "1.prems"(4,5,6) False by (intro place_within) simp_all
    with "1.prems"(3) False show ?thesis by (auto simp: draw_loop.simps)
  qed
next
  case (2 m sw xs mw word rest buf clw y out)
  let ?items = "word_chars_metrics m word"
  let ?fits = "(if buf = [] then clw else clw + sw) + items_width ?items \<le> mw"
  have gi: "good_items ?items"
    using "2.prems"(1) by (rule good_word_chars_metrics)
  have gs: "good_items [space_item m sw]"
    using "2.prems"(2) by (rule good_space_item)
  show ?case
  proof (cases ?fits)
    case fits: True
    show ?thesis
    proof (cases "buf = []")
      case True
      have eq: "draw_loop m sw xs mw (word # rest) buf clw y out
          = draw_loop m sw xs mw rest (buf @ ?items) (clw + items_width ?items) y out"
        using fits True by (simp add: draw_loop.simps)
      have "\<forall>r\<in>set (draw_loop m sw xs mw rest (buf @ ?items) (clw + items_width ?items) y out).
          within_line xs mw r"
      proof (rule "2.IH"(1) [OF fits True "2.prems"(1,2,3)])
        show "good_items (buf @ ?items)"
          using "2.prems"(4) gi by (simp add: good_items_append)
        show "clw + items_width ?items = items_width (buf @ ?items)"
          using "2.prems"(5) by (simp add: items_width_append)
        show "buf @ ?items = [] \<or> clw + items_width ?items \<le> mw"
          using fits True by simp
      qed
      then show ?thesis unfolding eq .
    next
      case False
      have eq: "draw_loop m sw xs mw (word # rest) buf clw y out
          = draw_loop m sw xs mw rest (buf @ [space_item m sw] @ ?items)
              (clw + sw + items_width ?items) y out"
        using fits False by (simp add: draw_loop.simps)
      have "\<forall>r\<in>set (draw_loop m sw xs mw rest (buf @ [space_item m sw] @ ?items)
              (clw + sw + items_width ?items) y out). within_line xs mw r"
      proof (rule "2.IH"(2) [OF fits False "2.prems"(1,2,3)])
        show "good_items (buf @ [space_item m sw] @ ?items)"
          using "2.prems"(4) gi gs by (simp add: good_items_append good_items_Cons)
        show "clw + sw + items_width ?items = items_width (buf @ [space_item m sw] @ ?items)"
          using "2.prems"(5)
          by (simp add: items_width_append items_width_Cons items_width_Nil space_item_def)
        show "buf @ [space_item m sw] @ ?items = [] \<or> clw + sw + items_width ?items \<le> mw"
          using fits False by simp
      qed
      then show ?thesis unfolding eq .
    qed
  next
    case nofit: False
    show ?thesis
    proof (cases "buf = []")
      case True
      let ?f = "forced_break xs mw ?items xs 0 y"
      have eq: "draw_loop m sw xs mw (word # rest) buf clw y out
          = draw_loop m sw xs mw rest [] 0 (snd ?f) (out @ fst ?f)"
        using nofit True by (simp add: draw_loop.simps)
      have f: "\<forall>r\<in>set (fst ?f). within_line xs mw r"
        using gi by (intro forced_break_within) simp_all
      have "\<forall>r\<in>set (draw_loop m sw xs mw rest [] 0 (snd ?f) (out @ fst ?f)). within_line xs mw r"
      proof (rule "2.IH"(3) [OF nofit True "2.prems"(1,2)])
        show "\<forall>r\<in>set (out @ fst ?f). within_line xs mw r"
          using "2.prems"(3) f by auto
        show "good_items []" by (rule good_items_Nil)
        show "0 = items_width []" by (simp add: items_width_Nil)
        show "[] = ([]::item list) \<or> 0 \<le> mw" by simp
      qed
      then show ?thesis unfolding eq .
    next
      case False
      have eq: "draw_loop m sw xs mw (word # rest) buf clw y out
          = draw_loop m sw xs mw (word # rest) [] 0 (y + line_height buf) (out @ place xs y buf)"
        using nofit False by (simp add: draw_loop.simps)
      have p: "\<forall>r\<in>set (place xs y buf). within_line xs mw r"
        using "2.prems"(4,5,6) False by (intro place_within) simp_all
      have "\<forall>r\<in>set (draw_loop m sw xs mw (word # rest) [] 0 (y + line_height buf)
              (out @ place xs y buf)). within_line xs mw r"
      proof (rule "2.IH"(4) [OF nofit False "2.prems"(1,2)])
        show "\<forall>r\<in>set (out @ place xs y buf). within_line xs mw r"
          using "2.prems"(3) p by auto
        show "good_items []" by (rule good_items_Nil)
        show "0 = items_width []" by (simp add: items_width_Nil)
        show "[] = ([]::item list) \<or> 0 \<le> mw" by simp
      qed
      then show ?thesis unfolding eq .
    qed
  qed
qed

lemma py_int_le: "0 \<le> x \<Longrightarrow> real_of_int (py_int x) \<le> x"
  by (simp add: py_int_def)

text \<open>
  C2. With fonts whose character widths and space width are not negative, every run
  emitted starts at or after the line start and ends at or before originX + maxWidth,
  except a single character wider than maxWidth, which is placed at the line start. The
  x-offset is the layout cursor; the pixel passed to the drawing call is its truncation
  and, for an origin that is not negative, does not lie to the right of it.
\<close>

theorem runs_within_width:
  assumes "\<forall>f c. 0 \<le> fst (m f c)" and "0 \<le> space_width"
  shows "\<forall>r\<in>set (draw_watermark m space_width text x_start y_start max_width).
           within_line x_start max_width r
           \<and> (0 \<le> x_start \<longrightarrow> real_of_int (pixel_x r) \<le> run_x r)"
proof (cases "text = []")
  case True
  then show ?thesis by (simp add: draw_watermark_def)
next
  case False
  have w: "\<forall>r\<in>set (draw_loop m space_width x_start max_width (split_space text) [] 0 y_start []).
      within_line x_start max_width r"
    using assms
    by (intro draw_loop_within) (simp_all add: good_items_Nil items_width_Nil)
  have "within_line x_start max_width r \<and> (0 \<le> x_start \<longrightarrow> real_of_int (pixel_x r) \<le> run_x r)"
    if "r \<in> set (draw_watermark m space_width text x_start y_start max_width)" for r
  proof -
    have a: "within_line x_start max_width r"
      using that w False by (simp add: draw_watermark_def)
    then have "x_start \<le> run_x r"
      by (simp add: within_line_def)
    then have "0 \<le> x_start \<longrightarrow> real_of_int (pixel_x r) \<le> run_x r"
      unfolding pixel_x_def by (auto intro: py_int_le)
    with a show ?thesis by simp
  qed
  then show ?thesis by blast
qed

theorem runs_within_width_witness:
  "map (\<lambda>r. (itext (run_item r), run_x r, run_y r))
     (draw_watermark (\<lambda>f c. (10, 12)) 5 (ustr ''ab cde'') 3 0 25)
   = [([97], 3, 0), ([98], 13, 0), ([99], 3, 12), ([100], 13, 12), ([101], 3, 24)]
   \<and> list_all (\<lambda>r. within_line 3 25 r \<and> real_of_int (pixel_x r) \<le> run_x r)
       (draw_watermark (\<lambda>f c. (10, 12)) 5 (ustr ''ab cde'') 3 0 25)"
proof -
  have e: "map (\<lambda>r. (itext (run_item r), run_x r, run_y r))
     (draw_watermark (\<lambda>f c. (10, 12)) 5 (ustr ''ab cde'') 3 0 25)
   = [([97], 3, 0), ([98], 13, 0), ([99], 3, 12), ([100], 13, 12), ([101], 3, 24)]"
    by (simp add: draw_watermark_def ustr_def draw_loop.simps word_chars_metrics_def items_width_def
        char_item_def space_item_def line_height_def Let_def)
  show ?thesis
    using runs_within_width [of "\<lambda>f c. (10, 12)" 5 "ustr ''ab cde''" 3 0 25] e
    by (simp add: list_all_iff)
qed

end
